theory Spec2Isabelle
  imports Complex_Main
begin

section \<open>Data model\<close>

text \<open>
  The landmark pipeline of \<^verbatim>\<open>expressora_server.py\<close> and the dwell detector of
  \<^verbatim>\<open>landmark_buffer.py\<close>. Python floats are idealised as reals; thresholds are compared
  exactly as the source writes them.
\<close>

datatype event_type = GLOSS | TONE | HANDS_DOWN

record RecognitionEvent =
  ev_type :: event_type
  label :: string
  confidence :: real

record LandmarkFrame =
  hands :: "real list"
  face :: "real list"
  pose :: "real list"

text \<open>
  One iteration of the handler's \<^verbatim>\<open>for landmark_frame in request_iterator\<close> receives a frame,
  reads the clock (\<^verbatim>\<open>time.time()\<close>, line 95) and may ask the classifier. The classifier is an
  external, randomised collaborator, so what it would answer on this frame is part of the input.
\<close>

record arrival =
  frame :: LandmarkFrame
  current_time :: real
  hands_answer :: "string option \<times> real"
  face_answer :: "string option \<times> real"

datatype error = UnboundLocalError

datatype status = OK | INTERNAL

section \<open>HandsDownDetector (landmark\_buffer.py)\<close>

record HandsDownDetector =
  threshold_y :: real
  duration_threshold :: real
  hands_down_start :: "real option"

text \<open>Lines 124--130 of \<^verbatim>\<open>check\<close>: the wrist y that is compared with the threshold.\<close>

definition wrist_y_of :: "real list \<Rightarrow> real" where
  "wrist_y_of hand_landmarks =
     (let wrist_y = (if length hand_landmarks > 1 then hand_landmarks ! 1 else 0)
      in if length hand_landmarks \<ge> 63
         then (let second_wrist_y =
                     (if length hand_landmarks > 64 then hand_landmarks ! 64 else wrist_y)
               in max wrist_y second_wrist_y)
         else wrist_y)"

definition check :: "HandsDownDetector \<Rightarrow> real list \<Rightarrow> real \<Rightarrow> bool \<times> HandsDownDetector" where
  "check d hand_landmarks now =
     (if hand_landmarks = [] \<or> length hand_landmarks < 3
      then (False, d\<lparr>hands_down_start := None\<rparr>)
      else if wrist_y_of hand_landmarks > threshold_y d
      then (case hands_down_start d of
              None \<Rightarrow> (False, d\<lparr>hands_down_start := Some now\<rparr>)
            | Some t0 \<Rightarrow> (if now - t0 > duration_threshold d then (True, d) else (False, d)))
      else (False, d\<lparr>hands_down_start := None\<rparr>))"

definition reset :: "HandsDownDetector \<Rightarrow> HandsDownDetector" where
  "reset d = d\<lparr>hands_down_start := None\<rparr>"

section \<open>The servicer and its handler (expressora\_server.py)\<close>

definition CONFIDENCE_THRESHOLD :: real where
  "CONFIDENCE_THRESHOLD = 0.90"

definition min_consistent_frames :: nat where
  "min_consistent_frames = 3"

definition min_movement_threshold :: real where
  "min_movement_threshold = 0.01"

text \<open>The mutable attributes that \<^verbatim>\<open>__init__\<close> puts on the one servicer object.\<close>

record Servicer =
  hands_down_detector :: HandsDownDetector
  recent_gloss_detections :: "(string \<times> real) list"
  previous_hand_landmarks :: "real list option"
  last_tone_event :: "string option"
  last_gloss_yielded :: bool

definition init_servicer :: Servicer where
  "init_servicer =
     \<lparr>hands_down_detector =
        \<lparr>threshold_y = 0.9, duration_threshold = 1.5, hands_down_start = None\<rparr>,
      recent_gloss_detections = [],
      previous_hand_landmarks = None,
      last_tone_event = None,
      last_gloss_yielded = False\<rparr>"

text \<open>
  The handler's local variables \<^verbatim>\<open>gloss_label, gloss_confidence\<close>. They are always assigned
  together, and keep their value from one loop iteration to the next; before the first
  assignment they are unbound (\<open>None\<close> of the option around this record).
\<close>

record Locals =
  gloss_label :: "string option"
  gloss_confidence :: real

text \<open>Python's \<^verbatim>\<open>xs[a:b]\<close> for \<open>0 \<le> a \<le> b\<close>.\<close>

definition slice :: "'a list \<Rightarrow> nat \<Rightarrow> nat \<Rightarrow> 'a list" where
  "slice xs a b = take (b - a) (drop a xs)"

text \<open>\<^verbatim>\<open>np.linalg.norm(u - v)\<close> on two arrays of equal length.\<close>

definition linalg_norm_diff :: "real list \<Rightarrow> real list \<Rightarrow> real" where
  "linalg_norm_diff u v = sqrt (\<Sum>p\<leftarrow>zip u v. (fst p - snd p)\<^sup>2)"

definition calculate_hand_span :: "real list \<Rightarrow> real" where
  "calculate_hand_span hand_chunk =
     (if length hand_chunk < 39 then 0
      else linalg_norm_diff (slice hand_chunk 0 3) (slice hand_chunk 36 39))"

text \<open>Lines 132--144: the density loop, which stops at the first dense sub-block.\<close>

fun density_loop :: "real list \<Rightarrow> nat list \<Rightarrow> bool" where
  "density_loop hand_landmarks [] = False"
| "density_loop hand_landmarks (i # rest) =
     (let hand_start = i * 63; hand_end = hand_start + 63
      in if hand_end > length hand_landmarks then density_loop hand_landmarks rest
         else (let hand_data = slice hand_landmarks hand_start hand_end;
                   non_zero_count = length (filter (\<lambda>x. \<bar>x\<bar> > 0.001) hand_data)
               in if non_zero_count \<ge> 15 then True
                  else density_loop hand_landmarks rest))"

text \<open>Lines 155--170: the span loop over every sub-block; the pair is (max\_span, valid\_span\_found).\<close>

fun span_loop :: "real list \<Rightarrow> nat list \<Rightarrow> real \<times> bool \<Rightarrow> real \<times> bool" where
  "span_loop hand_landmarks [] acc = acc"
| "span_loop hand_landmarks (i # rest) (max_span, valid_span_found) =
     (let hand_start = i * 63; hand_end = hand_start + 63
      in if hand_end > length hand_landmarks
         then span_loop hand_landmarks rest (max_span, valid_span_found)
         else (let span = calculate_hand_span (slice hand_landmarks hand_start hand_end)
               in span_loop hand_landmarks rest
                    (max max_span span, valid_span_found \<or> span \<ge> 0.08)))"

text \<open>Lines 196--202: the inner loop over the triplets; the pair is (total\_displacement, landmark\_count).\<close>

fun landmark_loop :: "real list \<Rightarrow> real list \<Rightarrow> nat list \<Rightarrow> real \<times> nat \<Rightarrow> real \<times> nat" where
  "landmark_loop current_hand prev_hand [] acc = acc"
| "landmark_loop current_hand prev_hand (j # rest) (total_displacement, landmark_count) =
     (if j + 2 < length current_hand \<and> j + 2 < length prev_hand
      then landmark_loop current_hand prev_hand rest
             (total_displacement
                + linalg_norm_diff (slice current_hand j (j + 3)) (slice prev_hand j (j + 3)),
              landmark_count + 1)
      else landmark_loop current_hand prev_hand rest (total_displacement, landmark_count))"

text \<open>\<^verbatim>\<open>range(0, 63, 3)\<close>\<close>

definition triplet_starts :: "nat list" where
  "triplet_starts = map (\<lambda>k. 3 * k) [0..<21]"

text \<open>Lines 187--202: the outer loop over the hand slots present in both snapshots.\<close>

fun displacement_loop :: "real list \<Rightarrow> real list \<Rightarrow> nat list \<Rightarrow> real \<times> nat \<Rightarrow> real \<times> nat" where
  "displacement_loop hand_landmarks previous [] acc = acc"
| "displacement_loop hand_landmarks previous (i # rest) acc =
     (let hand_start = i * 63; hand_end = hand_start + 63
      in if hand_end > length hand_landmarks \<or> hand_end > length previous
         then displacement_loop hand_landmarks previous rest acc
         else displacement_loop hand_landmarks previous rest
                (landmark_loop (slice hand_landmarks hand_start hand_end)
                               (slice previous hand_start hand_end) triplet_starts acc))"

definition displacement_sums :: "real list \<Rightarrow> real list \<Rightarrow> real \<times> nat" where
  "displacement_sums hand_landmarks previous =
     displacement_loop hand_landmarks previous
       [0..<min (length hand_landmarks div 63) (length previous div 63)] (0, 0)"

text \<open>Line 205: the average, read only when landmark\_count is positive.\<close>

definition avg_displacement :: "real list \<Rightarrow> real list \<Rightarrow> real" where
  "avg_displacement hand_landmarks previous =
     fst (displacement_sums hand_landmarks previous)
       / real (snd (displacement_sums hand_landmarks previous))"

text \<open>Lines 181--213: the value of \<^verbatim>\<open>hands_moved\<close>.\<close>

definition hands_moved_of :: "real list \<Rightarrow> real list option \<Rightarrow> bool" where
  "hands_moved_of hand_landmarks previous =
     (case previous of
        None \<Rightarrow> True
      | Some p \<Rightarrow>
          (if snd (displacement_sums hand_landmarks p) > 0
           then avg_displacement hand_landmarks p \<ge> min_movement_threshold
           else True))"

text \<open>
  Lines 123--233. The result is the servicer, the locals and whether \<^verbatim>\<open>classify_hands\<close> was
  called. The last \<^verbatim>\<open>else\<close> (lines 229--233) follows \<^verbatim>\<open>if not v: ... elif v:\<close> and is never taken.
\<close>

definition hand_validation ::
  "Servicer \<Rightarrow> Locals option \<Rightarrow> arrival \<Rightarrow> Servicer \<times> Locals option \<times> bool" where
  "hand_validation sv loc a =
     (let hand_landmarks = hands (frame a);
          hand_count = length hand_landmarks div 63
      in if hand_count = 0 then (sv, loc, False)
         else if \<not> density_loop hand_landmarks [0..<hand_count]
         then (sv\<lparr>previous_hand_landmarks := None\<rparr>,
               Some \<lparr>gloss_label = None, gloss_confidence = 0\<rparr>, False)
         else if \<not> snd (span_loop hand_landmarks [0..<hand_count] (0, False))
         then (sv\<lparr>previous_hand_landmarks := None\<rparr>,
               Some \<lparr>gloss_label = None, gloss_confidence = 0\<rparr>, False)
         else (let hands_moved = hands_moved_of hand_landmarks (previous_hand_landmarks sv);
                   sv' = sv\<lparr>previous_hand_landmarks :=
                              (if hand_landmarks \<noteq> [] then Some hand_landmarks else None)\<rparr>
               in if hands_moved
                  then (sv', Some \<lparr>gloss_label = fst (hands_answer a),
                                   gloss_confidence = snd (hands_answer a)\<rparr>, True)
                  else (sv', Some \<lparr>gloss_label = None, gloss_confidence = 0\<rparr>, False)))"

text \<open>Lines 239--243: append, then drop the oldest entry when more than five are held.\<close>

definition buffer_append :: "(string \<times> real) list \<Rightarrow> string \<times> real \<Rightarrow> (string \<times> real) list" where
  "buffer_append buf e = (let buf' = buf @ [e] in if length buf' > 5 then tl buf' else buf')"

text \<open>Lines 236--271, on bound locals. A label is truthy when it is neither None nor empty.\<close>

definition gloss_validation :: "Servicer \<Rightarrow> Locals \<Rightarrow> RecognitionEvent list \<times> Servicer" where
  "gloss_validation sv loc =
     (case gloss_label loc of
        None \<Rightarrow> ([], sv)
      | Some l \<Rightarrow>
          (if l \<noteq> [] \<and> gloss_confidence loc \<ge> CONFIDENCE_THRESHOLD
           then (let buf = buffer_append (recent_gloss_detections sv) (l, gloss_confidence loc)
                 in if length buf \<ge> min_consistent_frames
                    then (let recent_labels =
                                map fst (drop (length buf - min_consistent_frames) buf)
                          in if length (remdups recent_labels) = 1
                             then ([\<lparr>ev_type = GLOSS, label = hd recent_labels,
                                     confidence = gloss_confidence loc\<rparr>],
                                   sv\<lparr>recent_gloss_detections := [],
                                      last_gloss_yielded := True\<rparr>)
                             else ([], sv\<lparr>recent_gloss_detections := []\<rparr>))
                    else ([], sv\<lparr>recent_gloss_detections := buf\<rparr>))
           else ([], sv)))"

text \<open>Lines 275--290. The flag in the result says whether \<^verbatim>\<open>classify_face\<close> was called.\<close>

definition tone_detection :: "Servicer \<Rightarrow> arrival \<Rightarrow> RecognitionEvent list \<times> Servicer \<times> bool" where
  "tone_detection sv a =
     (if last_gloss_yielded sv
      then (case fst (face_answer a) of
              None \<Rightarrow> ([], sv\<lparr>last_gloss_yielded := False\<rparr>, True)
            | Some t \<Rightarrow>
                (if t \<noteq> [] \<and> snd (face_answer a) \<ge> 0.80 \<and> last_tone_event sv \<noteq> Some t
                 then ([\<lparr>ev_type = TONE, label = t, confidence = snd (face_answer a)\<rparr>],
                       sv\<lparr>last_tone_event := Some t, last_gloss_yielded := False\<rparr>, True)
                 else ([], sv\<lparr>last_gloss_yielded := False\<rparr>, True)))
      else ([], sv, False))"

text \<open>Lines 110--120: the dwell check on the raw hand data, with the reset after a detection.\<close>

definition hands_down_stage :: "Servicer \<Rightarrow> arrival \<Rightarrow> RecognitionEvent list \<times> Servicer" where
  "hands_down_stage sv a =
     (case check (hands_down_detector sv) (hands (frame a)) (current_time a) of
        (True, d) \<Rightarrow> ([\<lparr>ev_type = HANDS_DOWN, label = ''hands_down'', confidence = 1\<rparr>],
                      sv\<lparr>hands_down_detector := reset d\<rparr>)
      | (False, d) \<Rightarrow> ([], sv\<lparr>hands_down_detector := d\<rparr>))"

text \<open>What one loop iteration did: the events it yielded and the classifier calls it made.\<close>

record frame_trace =
  emitted :: "RecognitionEvent list"
  hands_classified :: bool
  face_classified :: bool

text \<open>
  One iteration of the loop (lines 91--290). Reading \<^verbatim>\<open>gloss_label\<close> at line 236 while it is
  unbound raises; the events already yielded and the changes to the servicer remain.
\<close>

definition process_frame ::
  "Servicer \<Rightarrow> Locals option \<Rightarrow> arrival \<Rightarrow> frame_trace \<times> Servicer \<times> (error + Locals)" where
  "process_frame sv loc a =
     (case hands_down_stage sv a of (ev1, sv1) \<Rightarrow>
      (case hand_validation sv1 loc a of (sv2, loc2, hc) \<Rightarrow>
       (case loc2 of
          None \<Rightarrow> (\<lparr>emitted = ev1, hands_classified = hc, face_classified = False\<rparr>,
                   sv2, Inl UnboundLocalError)
        | Some l \<Rightarrow>
           (case gloss_validation sv2 l of (ev2, sv3) \<Rightarrow>
            (case tone_detection sv3 a of (ev3, sv4, fc) \<Rightarrow>
               (\<lparr>emitted = ev1 @ ev2 @ ev3, hands_classified = hc, face_classified = fc\<rparr>,
                sv4, Inr l))))))"

text \<open>
  The loop. The \<^verbatim>\<open>except Exception\<close> of lines 292--295 ends the stream with status INTERNAL;
  a stream that is read to its end closes with the default status.
\<close>

fun frame_loop ::
  "Servicer \<Rightarrow> Locals option \<Rightarrow> arrival list \<Rightarrow> frame_trace list \<times> Servicer \<times> status" where
  "frame_loop sv loc [] = ([], sv, OK)"
| "frame_loop sv loc (a # rest) =
     (case process_frame sv loc a of
        (tr, sv', Inl e) \<Rightarrow> ([tr], sv', INTERNAL)
      | (tr, sv', Inr l) \<Rightarrow>
          (case frame_loop sv' (Some l) rest of
             (trs, sv'', st) \<Rightarrow> (tr # trs, sv'', st)))"

text \<open>Lines 84--295: the detector is reset, the locals start unbound.\<close>

definition StreamLandmarks ::
  "Servicer \<Rightarrow> arrival list \<Rightarrow> frame_trace list \<times> Servicer \<times> status" where
  "StreamLandmarks sv frames =
     frame_loop (sv\<lparr>hands_down_detector := reset (hands_down_detector sv)\<rparr>) None frames"

text \<open>The event stream of a run, and projections of it.\<close>

definition events_of :: "frame_trace list \<times> Servicer \<times> status \<Rightarrow> RecognitionEvent list" where
  "events_of r = concat (map emitted (fst r))"

definition of_type :: "event_type \<Rightarrow> RecognitionEvent list \<Rightarrow> RecognitionEvent list" where
  "of_type ty evs = filter (\<lambda>e. ev_type e = ty) evs"

section \<open>The server (serve, lines 346--366)\<close>

text \<open>
  \<^verbatim>\<open>serve\<close> registers one servicer object with a pool of ten worker threads; every open
  stream runs \<^verbatim>\<open>StreamLandmarks\<close> on a thread of its own, with its own locals, against that
  one object. A step of the server is the opening of a stream (the handler runs up to the loop
  head, so the detector is reset), one loop iteration of an open stream on the frame that
  arrived for it, or the end of a stream's input. Threads may also be switched inside an
  iteration; the runs below switch only between iterations, which every schedule allows.
\<close>

datatype connection = Running "Locals option" | Ended status

datatype step = Open nat | Arrive nat arrival | Close nat

record server =
  shared :: Servicer
  streams :: "nat \<Rightarrow> connection option"
  sent :: "nat \<Rightarrow> frame_trace list"

fun serve_step :: "server \<Rightarrow> step \<Rightarrow> server" where
  "serve_step s (Open c) =
     s\<lparr>shared := (shared s)\<lparr>hands_down_detector := reset (hands_down_detector (shared s))\<rparr>,
       streams := (streams s)(c \<mapsto> Running None)\<rparr>"
| "serve_step s (Arrive c a) =
     (case streams s c of
        Some (Running loc) \<Rightarrow>
          (case process_frame (shared s) loc a of
             (tr, sv', r) \<Rightarrow>
               s\<lparr>shared := sv',
                 streams := (streams s)(c \<mapsto> (case r of Inl e \<Rightarrow> Ended INTERNAL
                                                     | Inr l \<Rightarrow> Running (Some l))),
                 sent := (sent s)(c := sent s c @ [tr])\<rparr>)
      | _ \<Rightarrow> s)"
| "serve_step s (Close c) =
     (case streams s c of
        Some (Running loc) \<Rightarrow> s\<lparr>streams := (streams s)(c \<mapsto> Ended OK)\<rparr>
      | _ \<Rightarrow> s)"

definition serve_run :: "server \<Rightarrow> step list \<Rightarrow> server" where
  "serve_run s steps = foldl serve_step s steps"

definition serve :: server where
  "serve = \<lparr>shared = init_servicer, streams = (\<lambda>c. None), sent = (\<lambda>c. [])\<rparr>"

text \<open>The frames that a run delivers to one connection, in order.\<close>

fun frames_of :: "nat \<Rightarrow> step list \<Rightarrow> arrival list" where
  "frames_of c [] = []"
| "frames_of c (Arrive d a # rest) = (if d = c then a # frames_of c rest else frames_of c rest)"
| "frames_of c (x # rest) = frames_of c rest"

text \<open>
  The minimum-consistency window of the debouncer in the words of its description: the most
  recent three entries, and whether they all carry one label.
\<close>

definition window :: "(string \<times> real) list \<Rightarrow> (string \<times> real) list" where
  "window buf = drop (length buf - 3) buf"

definition share_one_label :: "(string \<times> real) list \<Rightarrow> bool" where
  "share_one_label w = (case w of [] \<Rightarrow> False | e # es \<Rightarrow> list_all (\<lambda>x. fst x = fst e) es)"

text \<open>The TONE labels of a run in order, and the same list behind the label last emitted before it.\<close>

definition tone_labels :: "frame_trace list \<Rightarrow> string list" where
  "tone_labels trs = map label (of_type TONE (concat (map emitted trs)))"

definition after_tone :: "string option \<Rightarrow> string list \<Rightarrow> string list" where
  "after_tone prev ts = (case prev of None \<Rightarrow> ts | Some x \<Rightarrow> x # ts)"

definition gloss_emitted :: "frame_trace \<Rightarrow> bool" where
  "gloss_emitted tr = (of_type GLOSS (emitted tr) \<noteq> [])"

text \<open>
  The \<open>i\<close>-th 63-float sub-block of the hands sequence, and the number of its elements whose
  absolute value exceeds 0.001.
\<close>

definition sub_block :: "real list \<Rightarrow> nat \<Rightarrow> real list" where
  "sub_block hl i = take 63 (drop (63 * i) hl)"

definition non_zero_count :: "real list \<Rightarrow> nat" where
  "non_zero_count block = length (filter (\<lambda>x. \<bar>x\<bar> > 0.001) block)"

text \<open>The conditions under which lines 178--228 (motion check and classification) are reached.\<close>

definition passes_validation :: "real list \<Rightarrow> bool" where
  "passes_validation hl =
     (0 < length hl div 63 \<and> density_loop hl [0..<length hl div 63]
      \<and> snd (span_loop hl [0..<length hl div 63] (0, False)))"

definition no_gloss :: Locals where
  "no_gloss = \<lparr>gloss_label = None, gloss_confidence = 0\<rparr>"

text \<open>
  The motion measure in the words of its description: the \<open>n\<close>-th landmark triplet of a flat
  sequence, and the Euclidean displacement of the landmarks of the hand slots present in both
  snapshots, averaged over the number of landmarks compared.
\<close>

definition landmark :: "real list \<Rightarrow> nat \<Rightarrow> real list" where
  "landmark xs n = take 3 (drop (3 * n) xs)"

definition mean_displacement :: "real list \<Rightarrow> real list \<Rightarrow> real" where
  "mean_displacement cur prev =
     (let m = min (length cur div 63) (length prev div 63)
      in (\<Sum>i\<leftarrow>[0..<m]. \<Sum>k\<leftarrow>[0..<21].
            linalg_norm_diff (landmark cur (21 * i + k)) (landmark prev (21 * i + k)))
         / real (21 * m))"

definition block_displacement :: "real list \<Rightarrow> real list \<Rightarrow> nat \<Rightarrow> real" where
  "block_displacement cur prev i =
     (\<Sum>k\<leftarrow>[0..<21]. linalg_norm_diff (landmark cur (21 * i + k)) (landmark prev (21 * i + k)))"

text \<open>
  The dwell of the hands-down detector in the words of its description: the number of
  HANDS\_DOWN events of a run; the effective wrist y of a hands sequence, which is the y of the
  first hand's wrist (index 1), or the larger of the two wrist y values (the second at index
  64) when a second hand is present; a frame of one or two hands whose effective wrist y
  exceeds 0.9; a non-empty sequence of such frames in arrival order; the time between its first and its
  last frame; and a servicer whose detector has the thresholds that \<^verbatim>\<open>__init__\<close> gives it.
\<close>

definition hands_down_count :: "frame_trace list \<Rightarrow> nat" where
  "hands_down_count trs = length (of_type HANDS_DOWN (concat (map emitted trs)))"

definition effective_wrist_y :: "real list \<Rightarrow> real" where
  "effective_wrist_y hl = (if 126 \<le> length hl then max (hl ! 1) (hl ! 64) else hl ! 1)"

definition down :: "arrival \<Rightarrow> bool" where
  "down a = ((length (hands (frame a)) = 63 \<or> length (hands (frame a)) = 126)
             \<and> effective_wrist_y (hands (frame a)) > 0.9)"

definition dwell :: "arrival list \<Rightarrow> bool" where
  "dwell frames = (frames \<noteq> [] \<and> list_all down frames \<and> sorted (map current_time frames))"

definition dwell_time :: "arrival list \<Rightarrow> real" where
  "dwell_time frames = current_time (last frames) - current_time (hd frames)"

definition as_constructed :: "Servicer \<Rightarrow> bool" where
  "as_constructed sv = (threshold_y (hands_down_detector sv) = 0.9
     \<and> duration_threshold (hands_down_detector sv) = 1.5)"

section \<open>Concrete inputs\<close>

definition no_hands :: arrival where
  "no_hands = \<lparr>frame = \<lparr>hands = [], face = [], pose = []\<rparr>, current_time = 0,
     hands_answer = (None, 0), face_answer = (None, 0)\<rparr>"

definition hello :: Locals where
  "hello = \<lparr>gloss_label = Some ''HELLO'', gloss_confidence = 0.95\<rparr>"

definition holding :: "(string \<times> real) list \<Rightarrow> Servicer" where
  "holding buf = init_servicer\<lparr>recent_gloss_detections := buf\<rparr>"

text \<open>
  A hand whose 63 coordinates are all non-zero and whose wrist and middle fingertip are 0.5
  apart, and a block of zeros.
\<close>

definition hand_A :: "real list" where
  "hand_A = replicate 36 (1/2) @ [1, 1/2, 1/2] @ replicate 24 (1/2)"

definition hand_Z :: "real list" where
  "hand_Z = replicate 63 0"

definition sign :: "real \<Rightarrow> arrival" where
  "sign t = \<lparr>frame = \<lparr>hands = hand_A, face = [0.1, 0.2, 0.3], pose = []\<rparr>, current_time = t,
     hands_answer = (Some ''HELLO'', 0.95), face_answer = (Some ''/question'', 0.9)\<rparr>"

definition blank :: "real \<Rightarrow> arrival" where
  "blank t = \<lparr>frame = \<lparr>hands = hand_Z, face = [0.1, 0.2, 0.3], pose = []\<rparr>, current_time = t,
     hands_answer = (Some ''HELLO'', 0.95), face_answer = (Some ''/question'', 0.9)\<rparr>"

text \<open>
  A dense hand collapsed to one point, and a block with a single non-zero coordinate at the
  middle fingertip.
\<close>

definition hand_G :: "real list" where
  "hand_G = replicate 63 (1/2)"

definition hand_W :: "real list" where
  "hand_W = replicate 36 0 @ [1/2] @ replicate 26 0"

definition ghost_and_sparse :: arrival where
  "ghost_and_sparse = \<lparr>frame = \<lparr>hands = hand_G @ hand_W, face = [], pose = []\<rparr>, current_time = 0,
     hands_answer = (Some ''HELLO'', 0.95), face_answer = (None, 0)\<rparr>"

definition ghost :: arrival where
  "ghost = \<lparr>frame = \<lparr>hands = hand_G, face = [], pose = []\<rparr>, current_time = 0,
     hands_answer = (Some ''HELLO'', 0.95), face_answer = (None, 0)\<rparr>"

text \<open>The hand of \<open>hand_A\<close> with the middle fingertip moved by 1 along x.\<close>

definition hand_B :: "real list" where
  "hand_B = replicate 36 (1/2) @ [0, 1/2, 1/2] @ replicate 24 (1/2)"

definition sign_B :: "real \<Rightarrow> arrival" where
  "sign_B t = \<lparr>frame = \<lparr>hands = hand_B, face = [0.1, 0.2, 0.3], pose = []\<rparr>, current_time = t,
     hands_answer = (Some ''HELLO'', 0.95), face_answer = (Some ''/question'', 0.9)\<rparr>"

text \<open>A sparse block with the wrist at y = 0.95, and a servicer whose timer runs since \<open>t0\<close>.\<close>

definition hand_D :: "real list" where
  "hand_D = [1/2, 19/20] @ replicate 61 0"

definition lowered :: "real \<Rightarrow> arrival" where
  "lowered t = \<lparr>frame = \<lparr>hands = hand_D, face = [], pose = []\<rparr>, current_time = t,
     hands_answer = (None, 0), face_answer = (None, 0)\<rparr>"

definition timing_since :: "real \<Rightarrow> Servicer" where
  "timing_since t0 = init_servicer\<lparr>hands_down_detector :=
      \<lparr>threshold_y = 0.9, duration_threshold = 1.5, hands_down_start = Some t0\<rparr>\<rparr>"

text \<open>
  Two hands of which only the second has its wrist low; the frame of \<open>sign\<close> with a neutral
  face; and three runs of the server in which two connections take turns.
\<close>

definition second_lowered :: "real \<Rightarrow> arrival" where
  "second_lowered t = \<lparr>frame = \<lparr>hands = replicate 63 0 @ hand_D, face = [], pose = []\<rparr>,
     current_time = t, hands_answer = (None, 0), face_answer = (None, 0)\<rparr>"

definition calm :: "real \<Rightarrow> arrival" where
  "calm t = \<lparr>frame = \<lparr>hands = hand_A, face = [0.1, 0.2, 0.3], pose = []\<rparr>, current_time = t,
     hands_answer = (Some ''HELLO'', 0.95), face_answer = (Some ''/neutral'', 0.9)\<rparr>"

definition crossing_motion :: "step list" where
  "crossing_motion = [Open 0, Open 1, Arrive 0 (sign 0), Arrive 1 (sign_B 1), Arrive 0 (sign 2)]"

definition crossing_tone :: "step list" where
  "crossing_tone =
     [Open 0, Open 1,
      Arrive 0 (sign 0), Arrive 0 (blank 1), Arrive 0 (sign 2), Arrive 0 (blank 3),
      Arrive 0 (sign 4), Arrive 0 (blank 5),
      Arrive 1 (calm 6), Arrive 1 (blank 7), Arrive 1 (calm 8), Arrive 1 (blank 9),
      Arrive 1 (calm 10), Arrive 1 (blank 11),
      Arrive 0 (sign 12), Arrive 0 (blank 13), Arrive 0 (sign 14), Arrive 0 (blank 15),
      Arrive 0 (sign 16)]"

definition crossing_dwell :: "step list" where
  "crossing_dwell =
     [Open 0, Arrive 0 (lowered 0), Open 1, Arrive 0 (lowered 0.8), Arrive 0 (lowered 1.6)]"

section \<open>Properties\<close>

subsection \<open>The debouncer\<close>

lemma three_elems: "length w = 3 \<Longrightarrow> \<exists>a b c. w = [a, b, c]"
  by (cases w; simp; cases "tl w"; simp; cases "tl (tl w)"; auto)

lemma remdups_share:
  assumes "length w = 3"
  shows "(length (remdups (map fst w)) = 1) = share_one_label w"
proof -
  from assms obtain a b c where w: "w = [a, b, c]" using three_elems by blast
  show ?thesis unfolding w share_one_label_def by auto
qed

lemma window_length: "3 \<le> length buf \<Longrightarrow> length (window buf) = 3"
  by (simp add: window_def)

lemma window_last: "3 \<le> length buf \<Longrightarrow> last (window buf) = last buf"
  by (simp add: window_def)

lemma share_last:
  assumes "length w = 3" "share_one_label w"
  shows "fst (hd w) = fst (last w) \<and> list_all (\<lambda>x. fst x = fst (last w)) w"
proof -
  from assms obtain a b c where w: "w = [a, b, c]" using three_elems by blast
  show ?thesis using assms(2) unfolding w share_one_label_def by auto
qed

lemma buffer_append_last: "last (buffer_append buf e) = e"
  by (cases buf) (auto simp: buffer_append_def Let_def)

lemma buffer_append_length: "length buf \<le> 5 \<Longrightarrow> length (buffer_append buf e) \<le> 5"
  by (auto simp: buffer_append_def Let_def)

text \<open>
  C2. When the locals hold a non-empty label \<open>l\<close> with confidence \<open>c \<ge> 0.90\<close>, the pair is
  appended to the buffer, which never grows beyond five entries. If the buffer then holds at
  least three entries and the most recent three share one label, that label is \<open>l\<close>, exactly
  one GLOSS event with \<open>l\<close> and the current confidence \<open>c\<close> is emitted, the whole buffer is
  cleared and the flag is set. If the most recent three do not share one label, nothing is
  emitted and the buffer is cleared. With fewer than three entries nothing is emitted and the
  buffer is kept.
\<close>

theorem gloss_consistency_rule:
  assumes "gloss_label loc = Some l" and "l \<noteq> []"
    and "gloss_confidence loc = c" and "c \<ge> 0.90"
  shows "(let buf = buffer_append (recent_gloss_detections sv) (l, c) in
           (length (recent_gloss_detections sv) \<le> 5 \<longrightarrow> length buf \<le> 5) \<and> last buf = (l, c) \<and>
           (3 \<le> length buf \<and> share_one_label (window buf) \<longrightarrow>
              list_all (\<lambda>x. fst x = l) (window buf) \<and>
              gloss_validation sv loc =
                ([\<lparr>ev_type = GLOSS, label = l, confidence = c\<rparr>],
                 sv\<lparr>recent_gloss_detections := [], last_gloss_yielded := True\<rparr>)) \<and>
           (3 \<le> length buf \<and> \<not> share_one_label (window buf) \<longrightarrow>
              gloss_validation sv loc = ([], sv\<lparr>recent_gloss_detections := []\<rparr>)) \<and>
           (length buf < 3 \<longrightarrow>
              gloss_validation sv loc = ([], sv\<lparr>recent_gloss_detections := buf\<rparr>)))"
proof -
  define buf where "buf = buffer_append (recent_gloss_detections sv) (l, c)"
  have lst: "last buf = (l, c)" by (simp add: buf_def buffer_append_last)
  have cap: "length (recent_gloss_detections sv) \<le> 5 \<longrightarrow> length buf \<le> 5"
    by (simp add: buf_def buffer_append_length)
  have short: "length buf < 3 \<longrightarrow> gloss_validation sv loc = ([], sv\<lparr>recent_gloss_detections := buf\<rparr>)"
    using assms by (simp add: gloss_validation_def CONFIDENCE_THRESHOLD_def min_consistent_frames_def
        buf_def [symmetric] Let_def)
  have differ: "3 \<le> length buf \<and> \<not> share_one_label (window buf) \<longrightarrow>
      gloss_validation sv loc = ([], sv\<lparr>recent_gloss_detections := []\<rparr>)"
    using assms remdups_share [OF window_length, of buf]
    by (simp add: gloss_validation_def CONFIDENCE_THRESHOLD_def min_consistent_frames_def
        buf_def [symmetric] Let_def window_def)
  have same: "3 \<le> length buf \<and> share_one_label (window buf) \<longrightarrow>
      list_all (\<lambda>x. fst x = l) (window buf) \<and>
      gloss_validation sv loc =
        ([\<lparr>ev_type = GLOSS, label = l, confidence = c\<rparr>],
         sv\<lparr>recent_gloss_detections := [], last_gloss_yielded := True\<rparr>)"
  proof
    assume h: "3 \<le> length buf \<and> share_one_label (window buf)"
    then have len: "length (window buf) = 3" by (simp add: window_length)
    from share_last [OF len] h window_last [of buf] lst
    have hd: "fst (hd (window buf)) = l" and all: "list_all (\<lambda>x. fst x = l) (window buf)"
      by simp_all
    have "window buf \<noteq> []" using len by auto
    then have hdm: "hd (map fst (window buf)) = l" using hd by (simp add: hd_map)
    have "length (remdups (map fst (window buf))) = 1"
      using remdups_share [OF len] h by simp
    then show "list_all (\<lambda>x. fst x = l) (window buf) \<and>
      gloss_validation sv loc =
        ([\<lparr>ev_type = GLOSS, label = l, confidence = c\<rparr>],
         sv\<lparr>recent_gloss_detections := [], last_gloss_yielded := True\<rparr>)"
      using assms h all hdm
      by (simp add: gloss_validation_def CONFIDENCE_THRESHOLD_def min_consistent_frames_def
          buf_def [symmetric] Let_def window_def [symmetric])
  qed
  show ?thesis unfolding Let_def buf_def [symmetric]
    using lst cap short differ same by blast
qed

theorem gloss_consistency_rule_witness:
  "gloss_label hello = Some ''HELLO'' \<and> ''HELLO'' \<noteq> [] \<and> gloss_confidence hello = 0.95
   \<and> (0.95 :: real) \<ge> 0.90
   \<and> gloss_validation (holding [(''HELLO'', 0.93), (''HELLO'', 0.97)]) hello
       = ([\<lparr>ev_type = GLOSS, label = ''HELLO'', confidence = 0.95\<rparr>],
          (holding [])\<lparr>last_gloss_yielded := True\<rparr>)
   \<and> gloss_validation (holding [(''A'', 0.95), (''B'', 0.95)]) hello = ([], holding [])
   \<and> gloss_validation (holding [(''HELLO'', 0.93)]) hello
       = ([], holding [(''HELLO'', 0.93), (''HELLO'', 0.95)])"
  using gloss_consistency_rule [of hello "''HELLO''" "0.95" "holding [(''HELLO'', 0.93), (''HELLO'', 0.97)]"]
    gloss_consistency_rule [of hello "''HELLO''" "0.95" "holding [(''A'', 0.95), (''B'', 0.95)]"]
    gloss_consistency_rule [of hello "''HELLO''" "0.95" "holding [(''HELLO'', 0.93)]"]
  by (simp add: hello_def holding_def init_servicer_def buffer_append_def window_def
      share_one_label_def Let_def)

subsection \<open>The unbound local\<close>

lemma check_empty: "check d [] t = (False, d\<lparr>hands_down_start := None\<rparr>)"
  by (simp add: check_def)

text \<open>
  C10. When the first frame of a stream has an empty hands sequence, the iteration reads
  \<^verbatim>\<open>gloss_label\<close> while it is unbound; the stream ends after that one frame with status
  INTERNAL and without any event, whatever frames follow. A frame with an empty hands sequence
  never assigns the locals.
\<close>

theorem first_frame_without_hands_raises:
  "hands (frame a) = [] \<longrightarrow>
     snd (snd (process_frame (sv\<lparr>hands_down_detector := reset (hands_down_detector sv)\<rparr>) None a))
       = Inl UnboundLocalError
   \<and> events_of (StreamLandmarks sv (a # rest)) = []
   \<and> length (fst (StreamLandmarks sv (a # rest))) = 1
   \<and> snd (snd (StreamLandmarks sv (a # rest))) = INTERNAL
   \<and> fst (snd (hand_validation sv loc a)) = loc"
  by (simp add: StreamLandmarks_def process_frame_def hands_down_stage_def check_empty
        hand_validation_def events_of_def)

theorem first_frame_without_hands_raises_witness:
  "hands (frame no_hands) = []
   \<and> StreamLandmarks init_servicer [no_hands, no_hands]
       = ([\<lparr>emitted = [], hands_classified = False, face_classified = False\<rparr>],
          init_servicer, INTERNAL)"
  using first_frame_without_hands_raises [of no_hands init_servicer "[no_hands]" None]
  by (simp add: no_hands_def StreamLandmarks_def process_frame_def hands_down_stage_def check_empty
        hand_validation_def init_servicer_def reset_def)

subsection \<open>What each stage touches\<close>

lemma of_type_append: "of_type ty (xs @ ys) = of_type ty xs @ of_type ty ys"
  by (simp add: of_type_def)

lemma of_type_Nil: "of_type ty [] = []"
  by (simp add: of_type_def)

lemma hands_down_stage_fields:
  assumes "hands_down_stage sv a = (ev, sv')"
  shows "recent_gloss_detections sv' = recent_gloss_detections sv"
    and "previous_hand_landmarks sv' = previous_hand_landmarks sv"
    and "last_tone_event sv' = last_tone_event sv"
    and "last_gloss_yielded sv' = last_gloss_yielded sv"
    and "of_type GLOSS ev = []" and "of_type TONE ev = []"
  using assms by (auto simp: hands_down_stage_def of_type_def split: prod.splits bool.splits)

lemma hand_validation_fields:
  assumes "hand_validation sv loc a = (sv', loc', hc)"
  shows "recent_gloss_detections sv' = recent_gloss_detections sv"
    and "hands_down_detector sv' = hands_down_detector sv"
    and "last_tone_event sv' = last_tone_event sv"
    and "last_gloss_yielded sv' = last_gloss_yielded sv"
  using assms by (auto simp: hand_validation_def Let_def split: if_splits)

lemma gloss_validation_fields:
  assumes "gloss_validation sv loc = (ev, sv')"
  shows "hands_down_detector sv' = hands_down_detector sv"
    and "previous_hand_landmarks sv' = previous_hand_landmarks sv"
    and "last_tone_event sv' = last_tone_event sv"
    and "of_type HANDS_DOWN ev = []" and "of_type TONE ev = []"
  using assms by (auto simp: gloss_validation_def Let_def of_type_def split: if_splits option.splits)


lemma tone_detection_fields:
  assumes "tone_detection sv a = (ev, sv', fc)"
  shows "hands_down_detector sv' = hands_down_detector sv"
    and "previous_hand_landmarks sv' = previous_hand_landmarks sv"
    and "recent_gloss_detections sv' = recent_gloss_detections sv"
    and "of_type HANDS_DOWN ev = []" and "of_type GLOSS ev = []"
    and "\<not> last_gloss_yielded sv'" and "fc = last_gloss_yielded sv"
  using assms by (auto simp: tone_detection_def Let_def of_type_def split: if_splits option.splits)

lemma tone_detection_rule:
  assumes "tone_detection sv a = (ev, sv', fc)"
  shows "(\<forall>e \<in> set ev. ev_type e = TONE \<and> fc \<and> fst (face_answer a) = Some (label e) \<and> label e \<noteq> []
            \<and> confidence e = snd (face_answer a) \<and> confidence e \<ge> 0.80
            \<and> last_tone_event sv \<noteq> Some (label e) \<and> last_tone_event sv' = Some (label e))
         \<and> (ev = [] \<longrightarrow> last_tone_event sv' = last_tone_event sv) \<and> length ev \<le> 1"
  using assms by (auto simp: tone_detection_def split: if_splits option.splits)

lemma process_frame_Inl:
  assumes "process_frame sv loc a = (tr, sv', Inl e)"
  shows "of_type GLOSS (emitted tr) = []" and "of_type TONE (emitted tr) = []"
    and "\<not> face_classified tr"
    and "last_tone_event sv' = last_tone_event sv"
    and "last_gloss_yielded sv' = last_gloss_yielded sv"
proof -
  obtain ev1 sv1 where s1: "hands_down_stage sv a = (ev1, sv1)"
    by (cases "hands_down_stage sv a") auto
  obtain sv2 loc2 hc where s2: "hand_validation sv1 loc a = (sv2, loc2, hc)"
    by (cases "hand_validation sv1 loc a") auto
  from assms s1 s2 have r: "tr = \<lparr>emitted = ev1, hands_classified = hc, face_classified = False\<rparr>"
    "sv' = sv2"
    by (auto simp: process_frame_def split: prod.splits option.splits)
  note f1 = hands_down_stage_fields [OF s1] and f2 = hand_validation_fields [OF s2]
  show "of_type GLOSS (emitted tr) = []" and "of_type TONE (emitted tr) = []"
    and "\<not> face_classified tr"
    and "last_tone_event sv' = last_tone_event sv"
    and "last_gloss_yielded sv' = last_gloss_yielded sv"
    using f1 f2 by (simp_all add: r)
qed

lemma process_frame_Inr:
  assumes "process_frame sv loc a = (tr, sv', Inr l)"
  obtains ev1 sv1 sv2 hc ev2 sv3 ev3 where
    "hands_down_stage sv a = (ev1, sv1)" and "hand_validation sv1 loc a = (sv2, Some l, hc)"
    and "gloss_validation sv2 l = (ev2, sv3)"
    and "tone_detection sv3 a = (ev3, sv', face_classified tr)"
    and "emitted tr = ev1 @ ev2 @ ev3" and "hands_classified tr = hc"
  using assms
  by (auto simp: process_frame_def split: prod.splits option.splits)

lemma process_frame_tone:
  assumes "process_frame sv loc a = (tr, sv', r)"
  shows "(\<forall>e \<in> set (of_type TONE (emitted tr)).
            face_classified tr \<and> fst (face_answer a) = Some (label e) \<and> label e \<noteq> []
            \<and> confidence e = snd (face_answer a) \<and> confidence e \<ge> 0.80
            \<and> last_tone_event sv \<noteq> Some (label e) \<and> last_tone_event sv' = Some (label e))
         \<and> (of_type TONE (emitted tr) = [] \<longrightarrow> last_tone_event sv' = last_tone_event sv)
         \<and> length (of_type TONE (emitted tr)) \<le> 1"
proof (cases r)
  case (Inl e)
  with assms process_frame_Inl [of sv loc a tr sv' e] show ?thesis by simp
next
  case (Inr l)
  with assms obtain ev1 sv1 sv2 hc ev2 sv3 ev3 where
    s1: "hands_down_stage sv a = (ev1, sv1)" and s2: "hand_validation sv1 loc a = (sv2, Some l, hc)"
    and s3: "gloss_validation sv2 l = (ev2, sv3)"
    and s4: "tone_detection sv3 a = (ev3, sv', face_classified tr)"
    and em: "emitted tr = ev1 @ ev2 @ ev3"
    by (auto elim: process_frame_Inr)
  have lt: "last_tone_event sv3 = last_tone_event sv"
    using hands_down_stage_fields(3) [OF s1] hand_validation_fields(3) [OF s2]
      gloss_validation_fields(3) [OF s3] by simp
  have tones: "of_type TONE (emitted tr) = of_type TONE ev3"
    using hands_down_stage_fields(6) [OF s1] gloss_validation_fields(5) [OF s3]
    by (simp add: em of_type_append)
  have all: "of_type TONE ev3 = ev3"
    using tone_detection_rule [OF s4] by (auto simp: of_type_def filter_id_conv)
  show ?thesis using tone_detection_rule [OF s4] unfolding tones all lt by blast
qed


subsection \<open>Evaluating the stages on the concrete frames\<close>


lemma hv_none:
  assumes "length (hands (frame a)) div 63 = 0"
  shows "hand_validation sv loc a = (sv, loc, False)"
  using assms by (simp add: hand_validation_def)

lemma hv_sparse:
  assumes "0 < length (hands (frame a)) div 63"
    and "\<not> density_loop (hands (frame a)) [0..<length (hands (frame a)) div 63]"
  shows "hand_validation sv loc a =
    (sv\<lparr>previous_hand_landmarks := None\<rparr>, Some \<lparr>gloss_label = None, gloss_confidence = 0\<rparr>, False)"
  using assms by (simp add: hand_validation_def)

lemma hv_ghost:
  assumes "0 < length (hands (frame a)) div 63"
    and "density_loop (hands (frame a)) [0..<length (hands (frame a)) div 63]"
    and "\<not> snd (span_loop (hands (frame a)) [0..<length (hands (frame a)) div 63] (0, False))"
  shows "hand_validation sv loc a =
    (sv\<lparr>previous_hand_landmarks := None\<rparr>, Some \<lparr>gloss_label = None, gloss_confidence = 0\<rparr>, False)"
  using assms by (simp add: hand_validation_def)

lemma hv_valid:
  assumes "0 < length (hands (frame a)) div 63"
    and "density_loop (hands (frame a)) [0..<length (hands (frame a)) div 63]"
    and "snd (span_loop (hands (frame a)) [0..<length (hands (frame a)) div 63] (0, False))"
  shows "hand_validation sv loc a =
    (sv\<lparr>previous_hand_landmarks := Some (hands (frame a))\<rparr>,
     Some (if hands_moved_of (hands (frame a)) (previous_hand_landmarks sv)
           then \<lparr>gloss_label = fst (hands_answer a), gloss_confidence = snd (hands_answer a)\<rparr>
           else \<lparr>gloss_label = None, gloss_confidence = 0\<rparr>),
     hands_moved_of (hands (frame a)) (previous_hand_landmarks sv))"
proof -
  from assms(1) have "hands (frame a) \<noteq> []" by auto
  with assms show ?thesis by (simp add: hand_validation_def Let_def)
qed

lemma hand_A_length: "length hand_A = 63"
  by (simp add: hand_A_def)

lemma hand_Z_length: "length hand_Z = 63"
  by (simp add: hand_Z_def)

lemma hand_A_dense: "density_loop hand_A [0..<length hand_A div 63]"
  by (simp add: hand_A_def slice_def)

lemma hand_Z_sparse: "\<not> density_loop hand_Z [0..<length hand_Z div 63]"
  by (simp add: hand_Z_def slice_def)

lemma hand_A_span: "calculate_hand_span hand_A = 1/2"
proof -
  have "calculate_hand_span hand_A = sqrt ((1/2)\<^sup>2)"
    by (simp add: hand_A_def calculate_hand_span_def slice_def linalg_norm_diff_def
        numeral_3_eq_3 power2_eq_square)
  then show ?thesis by (simp only: real_sqrt_abs)
qed

lemma hand_A_wide: "snd (span_loop hand_A [0..<length hand_A div 63] (0, False))"
  by (simp add: hand_A_length slice_def hand_A_span [unfolded hand_A_length [symmetric]])

lemma hand_A_wrist: "wrist_y_of hand_A = 1/2"
  by (simp add: wrist_y_of_def hand_A_length) (simp add: hand_A_def nth_append)

lemma hand_Z_wrist: "wrist_y_of hand_Z = 0"
  by (simp add: wrist_y_of_def hand_Z_length) (simp add: hand_Z_def)

lemma hv_sign:
  "hand_validation sv loc (sign t) =
    (sv\<lparr>previous_hand_landmarks := Some hand_A\<rparr>,
     Some (if hands_moved_of hand_A (previous_hand_landmarks sv)
           then \<lparr>gloss_label = Some ''HELLO'', gloss_confidence = 0.95\<rparr>
           else \<lparr>gloss_label = None, gloss_confidence = 0\<rparr>),
     hands_moved_of hand_A (previous_hand_landmarks sv))"
  using hv_valid [of "sign t" sv loc] hand_A_dense hand_A_wide
  by (simp add: sign_def hand_A_length)

lemma hv_blank:
  "hand_validation sv loc (blank t) =
    (sv\<lparr>previous_hand_landmarks := None\<rparr>, Some \<lparr>gloss_label = None, gloss_confidence = 0\<rparr>, False)"
  using hv_sparse [of "blank t" sv loc] hand_Z_sparse
  by (simp add: blank_def hand_Z_length)

lemma hd_sign:
  "threshold_y (hands_down_detector sv) = 0.9 \<Longrightarrow>
   hands_down_stage sv (sign t) =
     ([], sv\<lparr>hands_down_detector := (hands_down_detector sv)\<lparr>hands_down_start := None\<rparr>\<rparr>)"
  using hand_A_length by (auto simp: hands_down_stage_def check_def sign_def hand_A_wrist)

lemma hd_blank:
  "threshold_y (hands_down_detector sv) = 0.9 \<Longrightarrow>
   hands_down_stage sv (blank t) =
     ([], sv\<lparr>hands_down_detector := (hands_down_detector sv)\<lparr>hands_down_start := None\<rparr>\<rparr>)"
  using hand_Z_length by (auto simp: hands_down_stage_def check_def blank_def hand_Z_wrist)

lemma arrival_simps:
  "face_answer (sign t) = (Some ''/question'', 0.9)"
  "face_answer (blank t) = (Some ''/question'', 0.9)"
  by (simp_all add: sign_def blank_def)

lemmas run_simps = arrival_simps process_frame_def hd_sign hd_blank hv_sign hv_blank hands_moved_of_def
  gloss_validation_def tone_detection_def reset_def
  buffer_append_def CONFIDENCE_THRESHOLD_def min_consistent_frames_def Let_def


subsection \<open>The tone gate\<close>

lemma frame_loop_tones:
  "frame_loop sv loc frames = (trs, sv', st) \<Longrightarrow>
     distinct_adj (after_tone (last_tone_event sv) (tone_labels trs))"
proof (induction frames arbitrary: sv loc trs sv' st)
  case Nil
  then show ?case by (auto simp: tone_labels_def of_type_def after_tone_def split: option.splits)
next
  case (Cons a rest)
  obtain tr sv1 r where pf: "process_frame sv loc a = (tr, sv1, r)" by (cases "process_frame sv loc a") auto
  note rule = process_frame_tone [OF pf]
  have one: "of_type TONE (emitted tr) = [] \<or> (\<exists>e. of_type TONE (emitted tr) = [e])"
    using rule by (cases "of_type TONE (emitted tr)") auto
  show ?case
  proof (cases r)
    case (Inl e)
    with Cons.prems pf have trs: "trs = [tr]" by simp
    from one rule show ?thesis unfolding trs tone_labels_def after_tone_def
      by (auto split: option.splits)
  next
    case (Inr l)
    obtain trs' sv2 st' where fl: "frame_loop sv1 (Some l) rest = (trs', sv2, st')"
      by (cases "frame_loop sv1 (Some l) rest") auto
    with Cons.prems pf Inr have trs: "trs = tr # trs'" by simp
    note ih = Cons.IH [OF fl]
    have tl: "tone_labels trs = map label (of_type TONE (emitted tr)) @ tone_labels trs'"
      by (simp add: trs tone_labels_def of_type_append)
    from one show ?thesis
    proof
      assume e: "of_type TONE (emitted tr) = []"
      with rule have "last_tone_event sv1 = last_tone_event sv" by simp
      with ih e show ?thesis by (simp add: tl)
    next
      assume "\<exists>e. of_type TONE (emitted tr) = [e]"
      then obtain e where e: "of_type TONE (emitted tr) = [e]" by blast
      with rule have l1: "last_tone_event sv1 = Some (label e)" and l0: "last_tone_event sv \<noteq> Some (label e)"
        by simp_all
      from ih l1 have "distinct_adj (label e # tone_labels trs')" by (simp add: after_tone_def)
      with l0 show ?thesis by (auto simp: tl e after_tone_def split: option.splits)
    qed
  qed
qed

lemma distinct_adj_after: "distinct_adj (after_tone prev ts) \<Longrightarrow> distinct_adj ts"
  by (cases prev) (auto simp: after_tone_def distinct_adj_Cons split: list.splits)


text \<open>
  The tone gate, iteration by iteration and on a stream that has the servicer to itself.
  In one loop iteration at most one TONE event is emitted; it is emitted only after the
  face classifier was called, carries the classifier's label and confidence, the confidence is
  at least 0.80, the label differs from the last emitted tone label, and the last emitted tone
  label becomes that label. When no TONE event is emitted the last tone label is unchanged.
  Hence in the events that \<^verbatim>\<open>StreamLandmarks\<close> yields on a servicer that no other stream
  touches meanwhile, no two successive TONE events carry the same label.
\<close>

theorem tone_acceptance_and_dedup:
  "(process_frame sv loc a = (tr, sv', r) \<longrightarrow>
      (\<forall>e \<in> set (of_type TONE (emitted tr)).
          face_classified tr \<and> fst (face_answer a) = Some (label e)
          \<and> confidence e = snd (face_answer a) \<and> confidence e \<ge> 0.80
          \<and> last_tone_event sv \<noteq> Some (label e) \<and> last_tone_event sv' = Some (label e))
      \<and> (of_type TONE (emitted tr) = [] \<longrightarrow> last_tone_event sv' = last_tone_event sv)
      \<and> length (of_type TONE (emitted tr)) \<le> 1)
   \<and> distinct_adj (tone_labels (fst (StreamLandmarks sv0 frames)))"
proof
  show "process_frame sv loc a = (tr, sv', r) \<longrightarrow>
      (\<forall>e \<in> set (of_type TONE (emitted tr)).
          face_classified tr \<and> fst (face_answer a) = Some (label e)
          \<and> confidence e = snd (face_answer a) \<and> confidence e \<ge> 0.80
          \<and> last_tone_event sv \<noteq> Some (label e) \<and> last_tone_event sv' = Some (label e))
      \<and> (of_type TONE (emitted tr) = [] \<longrightarrow> last_tone_event sv' = last_tone_event sv)
      \<and> length (of_type TONE (emitted tr)) \<le> 1"
    using process_frame_tone [of sv loc a tr sv' r] by blast
next
  obtain trs sv' st where sl: "StreamLandmarks sv0 frames = (trs, sv', st)"
    by (cases "StreamLandmarks sv0 frames") auto
  then have "distinct_adj (tone_labels trs)"
    unfolding StreamLandmarks_def by (auto dest!: frame_loop_tones distinct_adj_after)
  with sl show "distinct_adj (tone_labels (fst (StreamLandmarks sv0 frames)))" by simp
qed


theorem tone_acceptance_and_dedup_witness:
  "process_frame (holding [(''HELLO'', 0.93), (''HELLO'', 0.97)]) (Some hello) (sign 0)
     = (\<lparr>emitted = [\<lparr>ev_type = GLOSS, label = ''HELLO'', confidence = 0.95\<rparr>,
                     \<lparr>ev_type = TONE, label = ''/question'', confidence = 0.9\<rparr>],
         hands_classified = True, face_classified = True\<rparr>,
        init_servicer\<lparr>previous_hand_landmarks := Some hand_A, last_tone_event := Some ''/question''\<rparr>,
        Inr hello)
   \<and> of_type TONE [\<lparr>ev_type = GLOSS, label = ''HELLO'', confidence = 0.95\<rparr>,
                    \<lparr>ev_type = TONE, label = ''/question'', confidence = 0.9\<rparr>]
       = [\<lparr>ev_type = TONE, label = ''/question'', confidence = 0.9\<rparr>]
   \<and> (0.9 :: real) \<ge> 0.80 \<and> last_tone_event (holding [(''HELLO'', 0.93), (''HELLO'', 0.97)]) = None
   \<and> distinct_adj (tone_labels (fst (StreamLandmarks init_servicer
        [sign 0, blank 1, sign 2, blank 3, sign 4, blank 5])))"
  using tone_acceptance_and_dedup [of "holding [(''HELLO'', 0.93), (''HELLO'', 0.97)]" "Some hello"
      "sign 0" "\<lparr>emitted = [\<lparr>ev_type = GLOSS, label = ''HELLO'', confidence = 0.95\<rparr>,
                     \<lparr>ev_type = TONE, label = ''/question'', confidence = 0.9\<rparr>],
         hands_classified = True, face_classified = True\<rparr>"
      "init_servicer\<lparr>previous_hand_landmarks := Some hand_A, last_tone_event := Some ''/question''\<rparr>"
      "Inr hello" init_servicer "[sign 0, blank 1, sign 2, blank 3, sign 4, blank 5]"]
  by (simp add: holding_def hello_def init_servicer_def run_simps of_type_def)








subsection \<open>The frame validator\<close>

lemma slice_sub_block: "slice hl (i * 63) (i * 63 + 63) = sub_block hl i"
  by (simp add: slice_def sub_block_def mult.commute)

lemma density_loop_iff:
  "density_loop hl idx = (\<exists>i \<in> set idx. i * 63 + 63 \<le> length hl \<and> 15 \<le> non_zero_count (sub_block hl i))"
  by (induction idx) (auto simp: Let_def slice_sub_block non_zero_count_def)

lemma block_in_range: "i < length hl div 63 \<Longrightarrow> i * 63 + 63 \<le> length hl"
proof -
  assume "i < length hl div 63"
  then have "Suc i \<le> length hl div 63" by simp
  then have "Suc i * 63 \<le> length hl div 63 * 63" by (rule mult_le_mono1)
  also have "\<dots> \<le> length hl" by simp
  finally show ?thesis by simp
qed

lemma density_loop_blocks:
  "density_loop hl [0..<length hl div 63] = (\<exists>i < length hl div 63. 15 \<le> non_zero_count (sub_block hl i))"
  using block_in_range [of _ hl] by (auto simp: density_loop_iff)

lemma span_loop_iff:
  "snd (span_loop hl idx (m, f)) =
     (f \<or> (\<exists>i \<in> set idx. i * 63 + 63 \<le> length hl \<and> 0.08 \<le> calculate_hand_span (sub_block hl i)))"
  by (induction idx arbitrary: m f) (auto simp: Let_def slice_sub_block)

lemma span_loop_blocks:
  "snd (span_loop hl [0..<length hl div 63] (0, False)) =
     (\<exists>i < length hl div 63. 0.08 \<le> calculate_hand_span (sub_block hl i))"
  using block_in_range [of _ hl] by (auto simp: span_loop_iff)

lemma calculate_hand_span_63:
  assumes "length b = 63"
  shows "calculate_hand_span b = sqrt ((b ! 0 - b ! 36)\<^sup>2 + (b ! 1 - b ! 37)\<^sup>2 + (b ! 2 - b ! 38)\<^sup>2)"
proof -
  have t: "take 3 b = [b ! 0, b ! 1, b ! 2]"
    using assms by (auto simp: list_eq_iff_nth_eq nth_Cons' numeral_3_eq_3 numeral_2_eq_2 less_Suc_eq)
  have d: "take 3 (drop 36 b) = [b ! 36, b ! 37, b ! 38]"
    using assms by (auto simp: list_eq_iff_nth_eq nth_Cons' numeral_3_eq_3 numeral_2_eq_2 less_Suc_eq)
  show ?thesis using assms by (simp add: calculate_hand_span_def slice_def linalg_norm_diff_def t d)
qed

lemma hv_rejected:
  assumes "0 < length (hands (frame a)) div 63" and "\<not> passes_validation (hands (frame a))"
  shows "hand_validation sv loc a = (sv\<lparr>previous_hand_landmarks := None\<rparr>, Some no_gloss, False)"
  using assms hv_sparse [of a sv loc] hv_ghost [of a sv loc]
  by (auto simp: passes_validation_def no_gloss_def)

lemma gloss_validation_no_gloss: "gloss_validation sv no_gloss = ([], sv)"
  by (simp add: gloss_validation_def no_gloss_def)

lemma process_frame_rejected:
  assumes "0 < length (hands (frame a)) div 63" and "\<not> passes_validation (hands (frame a))"
    and "process_frame sv loc a = (tr, sv', r)"
  shows "\<not> hands_classified tr \<and> \<not> gloss_emitted tr \<and> previous_hand_landmarks sv' = None
         \<and> recent_gloss_detections sv' = recent_gloss_detections sv \<and> r = Inr no_gloss"
proof -
  obtain ev1 sv1 where s1: "hands_down_stage sv a = (ev1, sv1)"
    by (cases "hands_down_stage sv a") auto
  note s2 = hv_rejected [OF assms(1,2), of sv1 loc]
  obtain ev3 sv4 fc where s4: "tone_detection (sv1\<lparr>previous_hand_landmarks := None\<rparr>) a = (ev3, sv4, fc)"
    by (cases "tone_detection (sv1\<lparr>previous_hand_landmarks := None\<rparr>) a") auto
  from assms(3) have r: "tr = \<lparr>emitted = ev1 @ ev3, hands_classified = False, face_classified = fc\<rparr>"
    "sv' = sv4" "r = Inr no_gloss"
    by (simp_all add: process_frame_def s1 s2 gloss_validation_no_gloss s4)
  show ?thesis
    using hands_down_stage_fields [OF s1] tone_detection_fields [OF s4]
    by (simp add: r gloss_emitted_def of_type_append)
qed

lemma passes_validation_iff:
  "passes_validation hl
       = ((\<exists>i < length hl div 63. 15 \<le> non_zero_count (sub_block hl i))
          \<and> (\<exists>i < length hl div 63. 0.08 \<le> calculate_hand_span (sub_block hl i)))"
  by (auto simp: passes_validation_def density_loop_blocks span_loop_blocks)

lemma blank_rejected: "\<not> passes_validation hand_Z"
  using hand_Z_sparse by (simp add: passes_validation_def)

text \<open>
  C7. A sub-block counts as present exactly when at least 15 of its elements exceed 0.001 in
  magnitude, and the density loop succeeds exactly when some sub-block is present. For every
  frame with at least one sub-block in which each sub-block has fewer than 15 such elements,
  validation fails, the hand classifier is not called, no GLOSS event is emitted, the gloss
  buffer is unchanged and the previous hand landmarks are reset to absent.
\<close>

theorem density_check_rejects_sparse_frames:
  "density_loop hl [0..<length hl div 63]
     = (\<exists>i < length hl div 63. 15 \<le> non_zero_count (sub_block hl i))
   \<and> (0 < length (hands (frame a)) div 63
        \<and> (\<forall>i < length (hands (frame a)) div 63. non_zero_count (sub_block (hands (frame a)) i) < 15)
        \<and> process_frame sv loc a = (tr, sv', r)
      \<longrightarrow> \<not> passes_validation (hands (frame a))
          \<and> \<not> hands_classified tr \<and> \<not> gloss_emitted tr \<and> previous_hand_landmarks sv' = None
          \<and> recent_gloss_detections sv' = recent_gloss_detections sv \<and> r = Inr no_gloss)"
proof -
  have "\<not> passes_validation (hands (frame a))
          \<and> \<not> hands_classified tr \<and> \<not> gloss_emitted tr \<and> previous_hand_landmarks sv' = None
          \<and> recent_gloss_detections sv' = recent_gloss_detections sv \<and> r = Inr no_gloss"
    if h: "0 < length (hands (frame a)) div 63
        \<and> (\<forall>i < length (hands (frame a)) div 63. non_zero_count (sub_block (hands (frame a)) i) < 15)
        \<and> process_frame sv loc a = (tr, sv', r)"
  proof -
    from h have np: "\<not> passes_validation (hands (frame a))"
      by (auto simp: passes_validation_iff)
    with h process_frame_rejected [of a sv loc tr sv' r] show ?thesis by blast
  qed
  then show ?thesis using density_loop_blocks [of hl] by blast
qed

theorem density_check_rejects_sparse_frames_witness:
  "0 < length (hands (frame (blank 0))) div 63
   \<and> length (hands (frame (blank 0))) div 63 = 1
   \<and> non_zero_count (sub_block (hands (frame (blank 0))) 0) < 15
   \<and> process_frame init_servicer None (blank 0)
       = (\<lparr>emitted = [], hands_classified = False, face_classified = False\<rparr>,
          init_servicer, Inr no_gloss)
   \<and> \<not> passes_validation (hands (frame (blank 0)))"
  using density_check_rejects_sparse_frames [of hand_Z "blank 0" init_servicer None
      "\<lparr>emitted = [], hands_classified = False, face_classified = False\<rparr>" init_servicer
      "Inr no_gloss"]
  by (simp add: run_simps init_servicer_def no_gloss_def blank_rejected)
     (simp add: blank_def hand_Z_def sub_block_def non_zero_count_def)

text \<open>
  C6, as the code has it. The span of a 63-float block is the distance between its wrist
  triplet (indices 0--2) and its middle-fingertip triplet (indices 36--38). A frame passes
  validation exactly when some sub-block is dense and some sub-block, dense or not, has a span
  of at least 0.08. For every frame with at least one sub-block in which no sub-block has a
  span of at least 0.08, validation fails, the hand classifier is not called, no GLOSS event
  is emitted and the previous hand landmarks are reset to absent.
\<close>

theorem span_check_rejects_ghost_frames:
  "(length b = 63 \<longrightarrow>
      calculate_hand_span b = sqrt ((b ! 0 - b ! 36)\<^sup>2 + (b ! 1 - b ! 37)\<^sup>2 + (b ! 2 - b ! 38)\<^sup>2))
   \<and> passes_validation hl
       = ((\<exists>i < length hl div 63. 15 \<le> non_zero_count (sub_block hl i))
          \<and> (\<exists>i < length hl div 63. 0.08 \<le> calculate_hand_span (sub_block hl i)))
   \<and> (0 < length (hands (frame a)) div 63
        \<and> (\<forall>i < length (hands (frame a)) div 63. calculate_hand_span (sub_block (hands (frame a)) i) < 0.08)
        \<and> process_frame sv loc a = (tr, sv', r)
      \<longrightarrow> \<not> passes_validation (hands (frame a))
          \<and> \<not> hands_classified tr \<and> \<not> gloss_emitted tr \<and> previous_hand_landmarks sv' = None
          \<and> recent_gloss_detections sv' = recent_gloss_detections sv \<and> r = Inr no_gloss)"
proof -
  have "\<not> passes_validation (hands (frame a))
          \<and> \<not> hands_classified tr \<and> \<not> gloss_emitted tr \<and> previous_hand_landmarks sv' = None
          \<and> recent_gloss_detections sv' = recent_gloss_detections sv \<and> r = Inr no_gloss"
    if h: "0 < length (hands (frame a)) div 63
        \<and> (\<forall>i < length (hands (frame a)) div 63. calculate_hand_span (sub_block (hands (frame a)) i) < 0.08)
        \<and> process_frame sv loc a = (tr, sv', r)"
  proof -
    from h have np: "\<not> passes_validation (hands (frame a))"
      by (auto simp: passes_validation_iff)
    with h process_frame_rejected [of a sv loc tr sv' r] show ?thesis by blast
  qed
  then show ?thesis using calculate_hand_span_63 [of b] passes_validation_iff [of hl] by blast
qed

lemma hand_G_length: "length hand_G = 63" by (simp add: hand_G_def)
lemma hand_W_length: "length hand_W = 63" by (simp add: hand_W_def)

lemma blocks_GW: "sub_block (hand_G @ hand_W) 0 = hand_G" "sub_block (hand_G @ hand_W) 1 = hand_W"
  "sub_block (hand_G @ hand_W) (Suc 0) = hand_W"
  by (simp_all add: sub_block_def hand_G_length hand_W_length)

lemma hand_G_count: "non_zero_count hand_G = 63"
  by (simp add: non_zero_count_def hand_G_def)

lemma hand_W_count: "non_zero_count hand_W = 1"
  by (simp add: non_zero_count_def hand_W_def)

lemma hand_G_span: "calculate_hand_span hand_G = 0"
  by (simp add: calculate_hand_span_63 hand_G_length) (simp add: hand_G_def)

lemma hand_W_span: "calculate_hand_span hand_W = 1/2"
proof -
  have "calculate_hand_span hand_W
      = sqrt ((hand_W ! 0 - hand_W ! 36)\<^sup>2 + (hand_W ! 1 - hand_W ! 37)\<^sup>2 + (hand_W ! 2 - hand_W ! 38)\<^sup>2)"
    by (rule calculate_hand_span_63 [OF hand_W_length])
  also have "(hand_W ! 0 - hand_W ! 36)\<^sup>2 + (hand_W ! 1 - hand_W ! 37)\<^sup>2 + (hand_W ! 2 - hand_W ! 38)\<^sup>2
      = (1/2)\<^sup>2"
    by (simp add: hand_W_def nth_append power2_eq_square)
  finally show ?thesis by (simp only: real_sqrt_abs)
qed

lemma GW_length: "length (hand_G @ hand_W) div 63 = 2"
  by (simp add: hand_G_length hand_W_length)

lemma GW_passes: "passes_validation (hand_G @ hand_W)"
proof -
  have "15 \<le> non_zero_count (sub_block (hand_G @ hand_W) 0)" by (simp add: blocks_GW hand_G_count)
  then have d: "\<exists>i < 2. 15 \<le> non_zero_count (sub_block (hand_G @ hand_W) i)"
    by (intro exI [of _ 0]) simp
  have "0.08 \<le> calculate_hand_span (sub_block (hand_G @ hand_W) 1)" by (simp add: blocks_GW hand_W_span)
  then have w: "\<exists>i < 2. 0.08 \<le> calculate_hand_span (sub_block (hand_G @ hand_W) i)"
    by (intro exI [of _ 1]) simp
  show ?thesis unfolding passes_validation_iff GW_length using d w by blast
qed

lemma GW_wrist: "wrist_y_of (hand_G @ hand_W) = 1/2"
proof -
  have "length (hand_G @ hand_W) = 126" by (simp add: hand_G_length hand_W_length)
  moreover have "(hand_G @ hand_W) ! 1 = 1/2" "(hand_G @ hand_W) ! 64 = 0"
    by (simp_all add: hand_G_def hand_W_def nth_append)
  ultimately show ?thesis by (simp add: wrist_y_of_def)
qed

lemma GW_hands_down: "hands_down_stage init_servicer ghost_and_sparse = ([], init_servicer)"
proof -
  have "length (hand_G @ hand_W) = 126" by (simp add: hand_G_length hand_W_length)
  then have "check (hands_down_detector init_servicer) (hand_G @ hand_W) 0
     = (False, hands_down_detector init_servicer)"
    unfolding check_def GW_wrist by (auto simp: init_servicer_def)
  then show ?thesis by (simp add: hands_down_stage_def ghost_and_sparse_def)
qed

lemma GW_validation:
  "hand_validation init_servicer None ghost_and_sparse =
      (init_servicer\<lparr>previous_hand_landmarks := Some (hand_G @ hand_W)\<rparr>, Some hello, True)"
  using hv_valid [of ghost_and_sparse init_servicer None] GW_passes
  by (simp add: passes_validation_def ghost_and_sparse_def hello_def hands_moved_of_def init_servicer_def)

lemma ghost_hands_down: "hands_down_stage init_servicer ghost = ([], init_servicer)"
proof -
  have "wrist_y_of hand_G = 1/2"
    by (simp add: wrist_y_of_def hand_G_length) (simp add: hand_G_def)
  then have "check (hands_down_detector init_servicer) hand_G 0
     = (False, hands_down_detector init_servicer)"
    using hand_G_length unfolding check_def by (auto simp: init_servicer_def)
  then show ?thesis by (simp add: hands_down_stage_def ghost_def)
qed

lemma ghost_blocks: "sub_block hand_G 0 = hand_G"
  by (simp add: sub_block_def hand_G_length)

lemma ghost_rejected: "\<not> passes_validation hand_G"
  by (simp add: passes_validation_iff hand_G_length ghost_blocks hand_G_span)

theorem span_check_rejects_ghost_frames_witness:
  "length hand_G = 63
   \<and> 0 < length (hands (frame ghost)) div 63
   \<and> length (hands (frame ghost)) div 63 = 1
   \<and> calculate_hand_span (sub_block (hands (frame ghost)) 0) < 0.08
   \<and> process_frame init_servicer None ghost
       = (\<lparr>emitted = [], hands_classified = False, face_classified = False\<rparr>,
          init_servicer, Inr no_gloss)
   \<and> \<not> passes_validation (hands (frame ghost))
   \<and> passes_validation (hand_G @ hand_W)"
proof -
  have hs: "hands (frame ghost) = hand_G" by (simp add: ghost_def)
  have hv: "hand_validation init_servicer None ghost = (init_servicer, Some no_gloss, False)"
    using hv_rejected [of ghost init_servicer None] ghost_rejected
    by (simp add: hs hand_G_length init_servicer_def)
  have pf: "process_frame init_servicer None ghost
       = (\<lparr>emitted = [], hands_classified = False, face_classified = False\<rparr>,
          init_servicer, Inr no_gloss)"
    by (simp add: process_frame_def ghost_hands_down hv gloss_validation_no_gloss)
       (simp add: tone_detection_def init_servicer_def)
  show ?thesis
    using span_check_rejects_ghost_frames [of hand_G "hand_G @ hand_W" ghost init_servicer None
      "\<lparr>emitted = [], hands_classified = False, face_classified = False\<rparr>" init_servicer
      "Inr no_gloss"] pf GW_passes
    by (simp add: hs hand_G_length ghost_blocks hand_G_span)
qed

text \<open>
  C6 as stated fails. In this frame of two sub-blocks the only dense sub-block has span 0 and
  the wide sub-block has a single non-zero coordinate, so no sub-block that passed the density
  check has a span of at least 0.08; yet the frame is accepted, the classifier is called and
  the snapshot is stored.
\<close>

theorem span_of_sparse_block_counterexample:
  "length (hands (frame ghost_and_sparse)) div 63 = 2
   \<and> 15 \<le> non_zero_count (sub_block (hands (frame ghost_and_sparse)) 0)
   \<and> calculate_hand_span (sub_block (hands (frame ghost_and_sparse)) 0) < 0.08
   \<and> non_zero_count (sub_block (hands (frame ghost_and_sparse)) 1) < 15
   \<and> process_frame init_servicer None ghost_and_sparse
       = (\<lparr>emitted = [], hands_classified = True, face_classified = False\<rparr>,
          init_servicer\<lparr>previous_hand_landmarks := Some (hand_G @ hand_W),
                        recent_gloss_detections := [(''HELLO'', 0.95)]\<rparr>,
          Inr hello)"
proof -
  have pf: "process_frame init_servicer None ghost_and_sparse
       = (\<lparr>emitted = [], hands_classified = True, face_classified = False\<rparr>,
          init_servicer\<lparr>previous_hand_landmarks := Some (hand_G @ hand_W),
                        recent_gloss_detections := [(''HELLO'', 0.95)]\<rparr>,
          Inr hello)"
    by (simp add: process_frame_def GW_hands_down GW_validation)
       (simp add: init_servicer_def hello_def gloss_validation_def
          tone_detection_def buffer_append_def CONFIDENCE_THRESHOLD_def min_consistent_frames_def)
  have hs: "hands (frame ghost_and_sparse) = hand_G @ hand_W" by (simp add: ghost_and_sparse_def)
  have c1: "length (hands (frame ghost_and_sparse)) div 63 = 2" unfolding hs by (rule GW_length)
  have c2: "15 \<le> non_zero_count (sub_block (hands (frame ghost_and_sparse)) 0)"
    unfolding hs by (simp add: blocks_GW hand_G_count)
  have c3: "calculate_hand_span (sub_block (hands (frame ghost_and_sparse)) 0) < 0.08"
    unfolding hs by (simp add: blocks_GW hand_G_span)
  have c4: "non_zero_count (sub_block (hands (frame ghost_and_sparse)) 1) < 15"
    unfolding hs by (simp add: blocks_GW hand_W_count)
  from c1 c2 c3 c4 pf show ?thesis by blast
qed

subsection \<open>The motion gate\<close>

lemma landmark_loop_sum:
  "\<forall>j \<in> set js. j + 2 < length c \<and> j + 2 < length p \<Longrightarrow>
   landmark_loop c p js (t, n) =
     (t + (\<Sum>j\<leftarrow>js. linalg_norm_diff (slice c j (j + 3)) (slice p j (j + 3))), n + length js)"
  by (induction js arbitrary: t n) (auto simp: add.assoc)

lemma sub_block_length: "i * 63 + 63 \<le> length hl \<Longrightarrow> length (sub_block hl i) = 63"
  by (simp add: sub_block_def mult.commute)

lemma triplet_in_block: "j \<in> set triplet_starts \<Longrightarrow> j + 2 < 63"
  by (auto simp: triplet_starts_def)

lemma triplet_of_block:
  assumes "k < 21"
  shows "slice (sub_block hl i) (3 * k) (3 * k + 3) = landmark hl (21 * i + k)"
proof -
  have "3 \<le> 63 - 3 * k" using assms by simp
  then show ?thesis
    by (simp add: slice_def sub_block_def landmark_def drop_take take_take min_def
        add_mult_distrib2 add.commute)
qed

lemma block_sum:
  assumes "i * 63 + 63 \<le> length hl" "i * 63 + 63 \<le> length p"
  shows "landmark_loop (sub_block hl i) (sub_block p i) triplet_starts (t, n)
     = (t + block_displacement hl p i, n + 21)"
proof -
  have "\<forall>j \<in> set triplet_starts.
      j + 2 < length (sub_block hl i) \<and> j + 2 < length (sub_block p i)"
    using assms triplet_in_block by (auto simp: sub_block_length)
  then have "landmark_loop (sub_block hl i) (sub_block p i) triplet_starts (t, n) =
     (t + (\<Sum>j\<leftarrow>triplet_starts.
              linalg_norm_diff (slice (sub_block hl i) j (j + 3)) (slice (sub_block p i) j (j + 3))),
      n + length triplet_starts)"
    by (rule landmark_loop_sum)
  moreover have "(\<Sum>j\<leftarrow>triplet_starts.
        linalg_norm_diff (slice (sub_block hl i) j (j + 3)) (slice (sub_block p i) j (j + 3)))
      = block_displacement hl p i"
  proof -
    have "map (\<lambda>k. linalg_norm_diff (slice (sub_block hl i) (3 * k) (3 * k + 3))
                                      (slice (sub_block p i) (3 * k) (3 * k + 3))) [0..<21]
        = map (\<lambda>k. linalg_norm_diff (landmark hl (21 * i + k)) (landmark p (21 * i + k))) [0..<21]"
      by (rule map_cong) (simp_all add: triplet_of_block)
    then have "sum_list (map (\<lambda>k. linalg_norm_diff (slice (sub_block hl i) (3 * k) (3 * k + 3))
                                      (slice (sub_block p i) (3 * k) (3 * k + 3))) [0..<21])
        = sum_list (map (\<lambda>k. linalg_norm_diff (landmark hl (21 * i + k)) (landmark p (21 * i + k))) [0..<21])"
      by (rule arg_cong)
    then show ?thesis
      unfolding triplet_starts_def block_displacement_def map_map o_def .
  qed
  moreover have "length triplet_starts = 21" by (simp add: triplet_starts_def)
  ultimately show ?thesis by simp
qed

lemma displacement_loop_sum:
  "\<forall>i \<in> set idx. i * 63 + 63 \<le> length hl \<and> i * 63 + 63 \<le> length p \<Longrightarrow>
   displacement_loop hl p idx (t, n) =
     (t + (\<Sum>i\<leftarrow>idx. block_displacement hl p i), n + 21 * length idx)"
proof (induction idx arbitrary: t n)
  case Nil
  then show ?case by simp
next
  case (Cons i idx)
  then have r: "i * 63 + 63 \<le> length hl" "i * 63 + 63 \<le> length p" by simp_all
  have "displacement_loop hl p (i # idx) (t, n)
      = displacement_loop hl p idx (t + block_displacement hl p i, n + 21)"
    using r by (simp add: Let_def slice_sub_block block_sum)
  also have "\<dots> = (t + block_displacement hl p i + (\<Sum>i\<leftarrow>idx. block_displacement hl p i),
                    n + 21 + 21 * length idx)"
    using Cons by simp
  finally show ?case by (simp add: add.assoc)
qed

lemma displacement_sums_eq:
  "displacement_sums hl p =
     ((\<Sum>i\<leftarrow>[0..<min (length hl div 63) (length p div 63)]. block_displacement hl p i),
      21 * min (length hl div 63) (length p div 63))"
proof -
  have "\<forall>i \<in> set [0..<min (length hl div 63) (length p div 63)].
      i * 63 + 63 \<le> length hl \<and> i * 63 + 63 \<le> length p"
    using block_in_range [of _ hl] block_in_range [of _ p] by simp
  from displacement_loop_sum [OF this, of 0 0] show ?thesis
    by (simp add: displacement_sums_def)
qed

lemma avg_is_mean: "avg_displacement hl p = mean_displacement hl p"
  by (simp add: avg_displacement_def mean_displacement_def displacement_sums_eq
      block_displacement_def Let_def)

lemma hands_moved_of_mean:
  assumes "0 < length hl div 63" "0 < length p div 63"
  shows "hands_moved_of hl (Some p) = (0.01 \<le> mean_displacement hl p)"
  using assms
  by (simp add: hands_moved_of_def displacement_sums_eq avg_is_mean min_movement_threshold_def)

lemma linalg_norm_diff_same: "linalg_norm_diff u u = 0"
proof -
  have "(\<Sum>p\<leftarrow>zip u u. (fst p - snd p)\<^sup>2) = 0"
    by (induction u) simp_all
  then show ?thesis by (simp add: linalg_norm_diff_def)
qed

lemma mean_displacement_same: "mean_displacement hl hl = 0"
  by (simp add: mean_displacement_def linalg_norm_diff_same)

lemma process_frame_valid:
  assumes "passes_validation (hands (frame a))" and "process_frame sv loc a = (tr, sv', r)"
  shows "hands_classified tr = hands_moved_of (hands (frame a)) (previous_hand_landmarks sv)
       \<and> previous_hand_landmarks sv' = Some (hands (frame a))
       \<and> (\<not> hands_classified tr \<longrightarrow> \<not> gloss_emitted tr)"
proof -
  let ?hl = "hands (frame a)"
  obtain ev1 sv1 where s1: "hands_down_stage sv a = (ev1, sv1)"
    by (cases "hands_down_stage sv a") auto
  have p1: "previous_hand_landmarks sv1 = previous_hand_landmarks sv"
    using hands_down_stage_fields(2) [OF s1] .
  define l where "l = (if hands_moved_of ?hl (previous_hand_landmarks sv)
           then \<lparr>gloss_label = fst (hands_answer a), gloss_confidence = snd (hands_answer a)\<rparr>
           else no_gloss)"
  have s2: "hand_validation sv1 loc a =
      (sv1\<lparr>previous_hand_landmarks := Some ?hl\<rparr>, Some l,
       hands_moved_of ?hl (previous_hand_landmarks sv))"
    using hv_valid [of a sv1 loc] assms(1)
    by (simp add: passes_validation_def p1 l_def no_gloss_def)
  obtain ev2 sv3 where s3: "gloss_validation (sv1\<lparr>previous_hand_landmarks := Some ?hl\<rparr>) l = (ev2, sv3)"
    by (cases "gloss_validation (sv1\<lparr>previous_hand_landmarks := Some ?hl\<rparr>) l") auto
  obtain ev3 sv4 fc where s4: "tone_detection sv3 a = (ev3, sv4, fc)"
    by (cases "tone_detection sv3 a") auto
  from assms(2) have r: "tr = \<lparr>emitted = ev1 @ ev2 @ ev3,
       hands_classified = hands_moved_of ?hl (previous_hand_landmarks sv), face_classified = fc\<rparr>"
    "sv' = sv4"
    by (simp_all add: process_frame_def s1 s2 s3 s4)
  have pv: "previous_hand_landmarks sv4 = Some ?hl"
    using gloss_validation_fields(2) [OF s3] tone_detection_fields(2) [OF s4] by simp
  have ng: "\<not> hands_moved_of ?hl (previous_hand_landmarks sv) \<longrightarrow> ev2 = []"
    using s3 by (auto simp: l_def gloss_validation_no_gloss)
  show ?thesis
    using hands_down_stage_fields(5) [OF s1] tone_detection_fields(5) [OF s4] pv ng
    by (auto simp: r gloss_emitted_def of_type_append of_type_Nil)
qed

text \<open>
  The motion gate when the second of two iterations finds the servicer as the first left it.
  For two consecutive frames that both pass hand validation, the hand classifier is called
  on the second exactly when the average per-landmark displacement between the matching hand
  slots of the two frames is at least 0.01; when it is not called no GLOSS event is emitted on
  that frame. After each of the two frames the previous hand landmarks are that frame's hand
  landmarks. With no prior snapshot the first frame is classified. Two identical snapshots
  give no motion and no classifier call.
\<close>

theorem motion_gate:
  assumes "passes_validation (hands (frame a1))" and "passes_validation (hands (frame a2))"
    and "process_frame sv loc a1 = (tr1, sv1, r1)"
    and "process_frame sv1 loc1 a2 = (tr2, sv2, r2)"
  shows "hands_classified tr2 = (0.01 \<le> mean_displacement (hands (frame a2)) (hands (frame a1)))
       \<and> (\<not> hands_classified tr2 \<longrightarrow> \<not> gloss_emitted tr2)
       \<and> previous_hand_landmarks sv1 = Some (hands (frame a1))
       \<and> previous_hand_landmarks sv2 = Some (hands (frame a2))
       \<and> (previous_hand_landmarks sv = None \<longrightarrow> hands_classified tr1)
       \<and> (hands (frame a2) = hands (frame a1) \<longrightarrow> \<not> hands_classified tr2)"
proof -
  note f1 = process_frame_valid [OF assms(1,3)] and f2 = process_frame_valid [OF assms(2,4)]
  have l1: "0 < length (hands (frame a1)) div 63" and l2: "0 < length (hands (frame a2)) div 63"
    using assms(1,2) by (simp_all add: passes_validation_def)
  have m: "hands_classified tr2 = (0.01 \<le> mean_displacement (hands (frame a2)) (hands (frame a1)))"
    using f1 f2 hands_moved_of_mean [OF l2 l1] by simp
  have first: "previous_hand_landmarks sv = None \<longrightarrow> hands_classified tr1"
    using f1 by (simp add: hands_moved_of_def)
  have same: "hands (frame a2) = hands (frame a1) \<longrightarrow> \<not> hands_classified tr2"
    using m by (auto simp: mean_displacement_same)
  show ?thesis using m f1 f2 first same by blast
qed


lemma hand_B_length: "length hand_B = 63"
  by (simp add: hand_B_def)

lemma hand_B_blocks: "sub_block hand_B 0 = hand_B" "sub_block hand_A 0 = hand_A"
  by (simp_all add: sub_block_def hand_B_length hand_A_length)

lemma hand_B_span: "calculate_hand_span hand_B = 1/2"
proof -
  have "calculate_hand_span hand_B
      = sqrt ((hand_B ! 0 - hand_B ! 36)\<^sup>2 + (hand_B ! 1 - hand_B ! 37)\<^sup>2 + (hand_B ! 2 - hand_B ! 38)\<^sup>2)"
    by (rule calculate_hand_span_63 [OF hand_B_length])
  also have "(hand_B ! 0 - hand_B ! 36)\<^sup>2 + (hand_B ! 1 - hand_B ! 37)\<^sup>2 + (hand_B ! 2 - hand_B ! 38)\<^sup>2
      = (1/2)\<^sup>2"
    by (simp add: hand_B_def nth_append power2_eq_square)
  finally show ?thesis by (simp only: real_sqrt_abs)
qed

lemma hand_B_count: "non_zero_count hand_B = 62"
  by (simp add: non_zero_count_def hand_B_def)

lemma hand_B_passes: "passes_validation hand_B"
  by (simp add: passes_validation_iff hand_B_length hand_B_blocks hand_B_span hand_B_count)

lemma hand_A_passes: "passes_validation hand_A"
  using hand_A_dense hand_A_wide by (simp add: passes_validation_def hand_A_length)

lemma one_landmark_moved:
  "linalg_norm_diff [0, 1/2, 1/2] [1, 1/2, 1/2] = 1"
  by (simp add: linalg_norm_diff_def)

lemma upt_21: "[0..<21] = [0, 1, 2, 3, 4, 5, 6, 7, 8, 9, 10, 11, 12, 13, 14, 15, 16, 17, 18, 19, 20]"
  by (simp add: upt_rec)

lemma mean_B_A: "mean_displacement hand_B hand_A = 1/21"
  by (simp add: mean_displacement_def hand_A_length hand_B_length upt_21)
     (simp add: hand_A_def hand_B_def landmark_def linalg_norm_diff_same one_landmark_moved)

lemma hand_B_moved: "hands_moved_of hand_B (Some hand_A)"
  using hands_moved_of_mean [of hand_B hand_A]
  by (simp add: mean_B_A hand_A_length hand_B_length)

lemma hv_sign_B:
  assumes "previous_hand_landmarks sv = Some hand_A"
  shows "hand_validation sv loc (sign_B t)
     = (sv\<lparr>previous_hand_landmarks := Some hand_B\<rparr>, Some hello, True)"
proof -
  have hs: "hands (frame (sign_B t)) = hand_B" by (simp add: sign_B_def)
  have ans: "hands_answer (sign_B t) = (Some ''HELLO'', 0.95)" by (simp add: sign_B_def)
  have "0 < length (hands (frame (sign_B t))) div 63"
    and "density_loop (hands (frame (sign_B t))) [0..<length (hands (frame (sign_B t))) div 63]"
    and "snd (span_loop (hands (frame (sign_B t)))
               [0..<length (hands (frame (sign_B t))) div 63] (0, False))"
    using hand_B_passes unfolding hs passes_validation_def by blast+
  from hv_valid [OF this, of sv loc] show ?thesis
    unfolding hs assms ans using hand_B_moved by (simp add: hello_def)
qed

lemma hd_sign_B:
  "threshold_y (hands_down_detector sv) = 0.9 \<Longrightarrow>
   hands_down_stage sv (sign_B t) =
     ([], sv\<lparr>hands_down_detector := (hands_down_detector sv)\<lparr>hands_down_start := None\<rparr>\<rparr>)"
proof -
  have "wrist_y_of hand_B = 1/2"
    by (simp add: wrist_y_of_def hand_B_length) (simp add: hand_B_def nth_append)
  then show "threshold_y (hands_down_detector sv) = 0.9 \<Longrightarrow> ?thesis"
    using hand_B_length by (auto simp: hands_down_stage_def check_def sign_B_def)
qed

theorem motion_gate_witness:
  "passes_validation (hands (frame (sign 0))) \<and> passes_validation (hands (frame (sign_B 1)))
   \<and> process_frame init_servicer None (sign 0)
       = (\<lparr>emitted = [], hands_classified = True, face_classified = False\<rparr>,
          init_servicer\<lparr>previous_hand_landmarks := Some hand_A,
                        recent_gloss_detections := [(''HELLO'', 0.95)]\<rparr>, Inr hello)
   \<and> process_frame (init_servicer\<lparr>previous_hand_landmarks := Some hand_A,
                        recent_gloss_detections := [(''HELLO'', 0.95)]\<rparr>) (Some hello) (sign_B 1)
       = (\<lparr>emitted = [], hands_classified = True, face_classified = False\<rparr>,
          init_servicer\<lparr>previous_hand_landmarks := Some hand_B,
                        recent_gloss_detections := [(''HELLO'', 0.95), (''HELLO'', 0.95)]\<rparr>,
          Inr hello)
   \<and> mean_displacement (hands (frame (sign_B 1))) (hands (frame (sign 0))) = 1/21"
proof -
  have h: "hands (frame (sign 0)) = hand_A" "hands (frame (sign_B 1)) = hand_B"
    by (simp_all add: sign_def sign_B_def)
  have p1: "process_frame init_servicer None (sign 0)
       = (\<lparr>emitted = [], hands_classified = True, face_classified = False\<rparr>,
          init_servicer\<lparr>previous_hand_landmarks := Some hand_A,
                        recent_gloss_detections := [(''HELLO'', 0.95)]\<rparr>, Inr hello)"
    by (simp add: init_servicer_def run_simps hello_def)
  have p2: "process_frame (init_servicer\<lparr>previous_hand_landmarks := Some hand_A,
                        recent_gloss_detections := [(''HELLO'', 0.95)]\<rparr>) (Some hello) (sign_B 1)
       = (\<lparr>emitted = [], hands_classified = True, face_classified = False\<rparr>,
          init_servicer\<lparr>previous_hand_landmarks := Some hand_B,
                        recent_gloss_detections := [(''HELLO'', 0.95), (''HELLO'', 0.95)]\<rparr>,
          Inr hello)"
    by (simp add: init_servicer_def process_frame_def hd_sign_B hv_sign_B)
       (simp add: hello_def gloss_validation_def tone_detection_def buffer_append_def
          CONFIDENCE_THRESHOLD_def min_consistent_frames_def)
  show ?thesis
    using motion_gate [of "sign 0" "sign_B 1" init_servicer None
        "\<lparr>emitted = [], hands_classified = True, face_classified = False\<rparr>"
        "init_servicer\<lparr>previous_hand_landmarks := Some hand_A,
                        recent_gloss_detections := [(''HELLO'', 0.95)]\<rparr>" "Inr hello" "Some hello"
        "\<lparr>emitted = [], hands_classified = True, face_classified = False\<rparr>"
        "init_servicer\<lparr>previous_hand_landmarks := Some hand_B,
                        recent_gloss_detections := [(''HELLO'', 0.95), (''HELLO'', 0.95)]\<rparr>"
        "Inr hello"] p1 p2 hand_A_passes hand_B_passes mean_B_A
    by (simp add: h)
qed

subsection \<open>The hands-down detector\<close>

lemma wrist_y_of_effective:
  "length hl = 63 \<or> length hl = 126 \<Longrightarrow> wrist_y_of hl = effective_wrist_y hl"
  by (auto simp: wrist_y_of_def effective_wrist_y_def Let_def)

lemma hands_down_stage_down:
  assumes "as_constructed sv" and "down a"
  shows "hands_down_stage sv a =
    (case hands_down_start (hands_down_detector sv) of
       None \<Rightarrow> ([], sv\<lparr>hands_down_detector :=
                        (hands_down_detector sv)\<lparr>hands_down_start := Some (current_time a)\<rparr>\<rparr>)
     | Some t0 \<Rightarrow>
         if current_time a - t0 > 1.5
         then ([\<lparr>ev_type = HANDS_DOWN, label = ''hands_down'', confidence = 1\<rparr>],
               sv\<lparr>hands_down_detector := (hands_down_detector sv)\<lparr>hands_down_start := None\<rparr>\<rparr>)
         else ([], sv))"
proof -
  from assms(2) have "hands (frame a) \<noteq> []" "\<not> length (hands (frame a)) < 3"
    by (auto simp: down_def)
  moreover from assms(2) have "wrist_y_of (hands (frame a)) > 0.9"
    using wrist_y_of_effective [of "hands (frame a)"] by (simp add: down_def)
  ultimately show ?thesis using assms(1)
    by (auto simp: hands_down_stage_def check_def reset_def as_constructed_def
        split: option.splits)
qed

lemma process_frame_down:
  assumes "63 \<le> length (hands (frame a))"
  obtains tr sv' l where "process_frame sv loc a = (tr, sv', Inr l)"
    and "of_type HANDS_DOWN (emitted tr) = fst (hands_down_stage sv a)"
    and "hands_down_detector sv' = hands_down_detector (snd (hands_down_stage sv a))"
proof -
  obtain ev1 sv1 where s1: "hands_down_stage sv a = (ev1, sv1)"
    by (cases "hands_down_stage sv a") auto
  obtain sv2 loc2 hc where s2: "hand_validation sv1 loc a = (sv2, loc2, hc)"
    by (cases "hand_validation sv1 loc a") auto
  from assms have "0 < length (hands (frame a)) div 63" by (simp add: div_greater_zero_iff)
  with s2 obtain l where l: "loc2 = Some l"
    by (auto simp: hand_validation_def Let_def split: if_splits)
  obtain ev2 sv3 where s3: "gloss_validation sv2 l = (ev2, sv3)"
    by (cases "gloss_validation sv2 l") auto
  obtain ev3 sv4 fc where s4: "tone_detection sv3 a = (ev3, sv4, fc)"
    by (cases "tone_detection sv3 a") auto
  have pf: "process_frame sv loc a =
     (\<lparr>emitted = ev1 @ ev2 @ ev3, hands_classified = hc, face_classified = fc\<rparr>, sv4, Inr l)"
    by (simp add: process_frame_def s1 s2 l s3 s4)
  have all1: "of_type HANDS_DOWN ev1 = ev1"
    using s1 by (auto simp: hands_down_stage_def of_type_def split: prod.splits bool.splits)
  have ev: "of_type HANDS_DOWN (ev1 @ ev2 @ ev3) = ev1"
    using gloss_validation_fields(4) [OF s3] tone_detection_fields(4) [OF s4]
    by (simp add: of_type_append all1)
  have det: "hands_down_detector sv4 = hands_down_detector sv1"
    using hand_validation_fields(2) [OF s2] gloss_validation_fields(1) [OF s3]
      tone_detection_fields(1) [OF s4] by simp
  show ?thesis using that [OF pf] ev det by (simp add: s1)
qed

lemma frame_loop_down:
  assumes "as_constructed sv" and "down a"
  obtains sv' l where
    "as_constructed sv'"
    "hands_down_count (fst (frame_loop sv loc (a # rest)))
       = (case hands_down_start (hands_down_detector sv) of
            None \<Rightarrow> 0 | Some t0 \<Rightarrow> if current_time a - t0 > 1.5 then 1 else 0)
         + hands_down_count (fst (frame_loop sv' (Some l) rest))"
    "hands_down_start (hands_down_detector sv')
       = (case hands_down_start (hands_down_detector sv) of
            None \<Rightarrow> Some (current_time a)
          | Some t0 \<Rightarrow> if current_time a - t0 > 1.5 then None else Some t0)"
proof -
  from assms(2) have len: "63 \<le> length (hands (frame a))" by (auto simp: down_def)
  obtain tr sv' l where pf: "process_frame sv loc a = (tr, sv', Inr l)"
    and ev: "of_type HANDS_DOWN (emitted tr) = fst (hands_down_stage sv a)"
    and det: "hands_down_detector sv' = hands_down_detector (snd (hands_down_stage sv a))"
    using process_frame_down [OF len, of sv loc] by blast
  note st = hands_down_stage_down [OF assms]
  have c: "as_constructed sv'"
    using assms(1) det st by (auto simp: as_constructed_def split: option.splits if_splits)
  have cnt: "hands_down_count (fst (frame_loop sv loc (a # rest)))
      = length (fst (hands_down_stage sv a)) + hands_down_count (fst (frame_loop sv' (Some l) rest))"
    by (simp add: pf hands_down_count_def of_type_append ev [symmetric] split: prod.splits)
  have n: "length (fst (hands_down_stage sv a))
      = (case hands_down_start (hands_down_detector sv) of
            None \<Rightarrow> 0 | Some t0 \<Rightarrow> if current_time a - t0 > 1.5 then 1 else 0)"
    by (simp add: st split: option.splits)
  have s: "hands_down_start (hands_down_detector sv')
       = (case hands_down_start (hands_down_detector sv) of
            None \<Rightarrow> Some (current_time a)
          | Some t0 \<Rightarrow> if current_time a - t0 > 1.5 then None else Some t0)"
    by (simp add: det st split: option.splits)
  show ?thesis using that [OF c] cnt n s by simp
qed

lemma quiet_running:
  "as_constructed sv \<Longrightarrow> hands_down_start (hands_down_detector sv) = Some t0 \<Longrightarrow>
   list_all down frames \<Longrightarrow> \<forall>a \<in> set frames. current_time a - t0 \<le> 1.5 \<Longrightarrow>
   hands_down_count (fst (frame_loop sv loc frames)) = 0"
proof (induction frames arbitrary: sv loc)
  case Nil
  then show ?case by (simp add: hands_down_count_def of_type_def)
next
  case (Cons a rest)
  from Cons.prems have d: "down a" by simp
  obtain sv' l where c: "as_constructed sv'"
    and cnt: "hands_down_count (fst (frame_loop sv loc (a # rest)))
       = (case hands_down_start (hands_down_detector sv) of
            None \<Rightarrow> 0 | Some t0 \<Rightarrow> if current_time a - t0 > 1.5 then 1 else 0)
         + hands_down_count (fst (frame_loop sv' (Some l) rest))"
    and s: "hands_down_start (hands_down_detector sv')
       = (case hands_down_start (hands_down_detector sv) of
            None \<Rightarrow> Some (current_time a)
          | Some t0 \<Rightarrow> if current_time a - t0 > 1.5 then None else Some t0)"
    using frame_loop_down [OF Cons.prems(1) d, of loc rest] by blast
  from Cons.prems have le: "current_time a - t0 \<le> 1.5" by simp
  have s': "hands_down_start (hands_down_detector sv') = Some t0"
    using s le Cons.prems(2) by simp
  have "hands_down_count (fst (frame_loop sv' (Some l) rest)) = 0"
    using Cons.IH [OF c s'] Cons.prems by simp
  then show ?case using cnt le Cons.prems(2) by simp
qed

lemma quiet_fresh:
  assumes "as_constructed sv" and "hands_down_start (hands_down_detector sv) = None"
    and "list_all down (a # rest)" and "\<forall>b \<in> set rest. current_time b - current_time a \<le> 1.5"
  shows "hands_down_count (fst (frame_loop sv loc (a # rest))) = 0"
proof -
  from assms(3) have d: "down a" by simp
  obtain sv' l where c: "as_constructed sv'"
    and cnt: "hands_down_count (fst (frame_loop sv loc (a # rest)))
       = (case hands_down_start (hands_down_detector sv) of
            None \<Rightarrow> 0 | Some t0 \<Rightarrow> if current_time a - t0 > 1.5 then 1 else 0)
         + hands_down_count (fst (frame_loop sv' (Some l) rest))"
    and s: "hands_down_start (hands_down_detector sv')
       = (case hands_down_start (hands_down_detector sv) of
            None \<Rightarrow> Some (current_time a)
          | Some t0 \<Rightarrow> if current_time a - t0 > 1.5 then None else Some t0)"
    using frame_loop_down [OF assms(1) d, of loc rest] by blast
  have s': "hands_down_start (hands_down_detector sv') = Some (current_time a)"
    using s assms(2) by simp
  have "hands_down_count (fst (frame_loop sv' (Some l) rest)) = 0"
    using quiet_running [OF c s'] assms(3,4) by simp
  then show ?thesis using cnt assms(2) by simp
qed

lemma sorted_last_ge:
  "sorted (map current_time (a # rest)) \<Longrightarrow> b \<in> set (a # rest) \<Longrightarrow>
     current_time a \<le> current_time b \<and> current_time b \<le> current_time (last (a # rest))"
proof (induction rest arbitrary: a)
  case Nil
  then show ?case by simp
next
  case (Cons c rest)
  then show ?case by (auto split: if_splits)
qed

lemma once_running:
  "as_constructed sv \<Longrightarrow> hands_down_start (hands_down_detector sv) = Some t0 \<Longrightarrow>
   list_all down frames \<Longrightarrow> sorted (map current_time frames) \<Longrightarrow> frames \<noteq> [] \<Longrightarrow>
   current_time (last frames) - t0 > 1.5 \<Longrightarrow> current_time (last frames) - t0 \<le> 3 \<Longrightarrow>
   hands_down_count (fst (frame_loop sv loc frames)) = 1"
proof (induction frames arbitrary: sv loc)
  case Nil
  then show ?case by simp
next
  case (Cons a rest)
  from Cons.prems have d: "down a" by simp
  obtain sv' l where c: "as_constructed sv'"
    and cnt: "hands_down_count (fst (frame_loop sv loc (a # rest)))
       = (case hands_down_start (hands_down_detector sv) of
            None \<Rightarrow> 0 | Some t0 \<Rightarrow> if current_time a - t0 > 1.5 then 1 else 0)
         + hands_down_count (fst (frame_loop sv' (Some l) rest))"
    and s: "hands_down_start (hands_down_detector sv')
       = (case hands_down_start (hands_down_detector sv) of
            None \<Rightarrow> Some (current_time a)
          | Some t0 \<Rightarrow> if current_time a - t0 > 1.5 then None else Some t0)"
    using frame_loop_down [OF Cons.prems(1) d, of loc rest] by blast
  show ?case
  proof (cases "current_time a - t0 > 1.5")
    case True
    then have s': "hands_down_start (hands_down_detector sv') = None"
      using s Cons.prems(2) by simp
    have "hands_down_count (fst (frame_loop sv' (Some l) rest)) = 0"
    proof (cases rest)
      case Nil
      then show ?thesis by (simp add: hands_down_count_def of_type_def)
    next
      case (Cons b rest')
      have lb: "current_time a \<le> current_time b"
        using Cons.prems(4) Cons by simp
      have "\<forall>x \<in> set rest'. current_time x - current_time b \<le> 1.5"
      proof
        fix x assume "x \<in> set rest'"
        then have "x \<in> set (a # rest)" using Cons by simp
        from sorted_last_ge [OF Cons.prems(4) this]
        have "current_time x \<le> current_time (last (a # rest))" by simp
        with Cons.prems(7) True lb show "current_time x - current_time b \<le> 1.5" by simp
      qed
      moreover have "list_all down (b # rest')" using Cons.prems(3) Cons by simp
      ultimately show ?thesis using quiet_fresh [OF c s', of b rest' "Some l"] Cons by simp
    qed
    then show ?thesis using cnt True Cons.prems(2) by simp
  next
    case False
    then have s': "hands_down_start (hands_down_detector sv') = Some t0"
      using s Cons.prems(2) by simp
    from False Cons.prems(6) have ne: "rest \<noteq> []" by auto
    then have lst: "last (a # rest) = last rest" by simp
    have "hands_down_count (fst (frame_loop sv' (Some l) rest)) = 1"
      using Cons.IH [OF c s' _ _ ne] Cons.prems(3,4,6,7) lst by simp
    then show ?thesis using cnt False Cons.prems(2) by simp
  qed
qed

lemma once_fresh:
  assumes "as_constructed sv" and "hands_down_start (hands_down_detector sv) = None"
    and "dwell frames" and "dwell_time frames = 1.6"
  shows "hands_down_count (fst (frame_loop sv loc frames)) = 1"
proof -
  from assms(3) obtain a rest where fr: "frames = a # rest"
    by (cases frames) (auto simp: dwell_def)
  from assms(4) have ne: "rest \<noteq> []" by (auto simp: dwell_time_def fr)
  from assms(3) have d: "down a" and dr: "list_all down rest"
    and so: "sorted (map current_time rest)"
    by (simp_all add: dwell_def fr)
  obtain sv' l where c: "as_constructed sv'"
    and cnt: "hands_down_count (fst (frame_loop sv loc (a # rest)))
       = (case hands_down_start (hands_down_detector sv) of
            None \<Rightarrow> 0 | Some t0 \<Rightarrow> if current_time a - t0 > 1.5 then 1 else 0)
         + hands_down_count (fst (frame_loop sv' (Some l) rest))"
    and s: "hands_down_start (hands_down_detector sv')
       = (case hands_down_start (hands_down_detector sv) of
            None \<Rightarrow> Some (current_time a)
          | Some t0 \<Rightarrow> if current_time a - t0 > 1.5 then None else Some t0)"
    using frame_loop_down [OF assms(1) d, of loc rest] by blast
  have s': "hands_down_start (hands_down_detector sv') = Some (current_time a)"
    using s assms(2) by simp
  have t: "current_time (last rest) - current_time a = 1.6"
    using assms(4) ne by (simp add: dwell_time_def fr)
  have "hands_down_count (fst (frame_loop sv' (Some l) rest)) = 1"
    using once_running [OF c s' dr so ne] t by simp
  then show ?thesis using cnt assms(2) by (simp add: fr)
qed

lemma none_fresh:
  assumes "as_constructed sv" and "hands_down_start (hands_down_detector sv) = None"
    and "dwell frames" and "dwell_time frames = 1.0"
  shows "hands_down_count (fst (frame_loop sv loc frames)) = 0"
proof -
  from assms(3) obtain a rest where fr: "frames = a # rest"
    by (cases frames) (auto simp: dwell_def)
  have so: "sorted (map current_time (a # rest))" using assms(3) by (simp add: dwell_def fr)
  have "\<forall>b \<in> set rest. current_time b - current_time a \<le> 1.5"
  proof
    fix b assume "b \<in> set rest"
    then have "b \<in> set (a # rest)" by simp
    from sorted_last_ge [OF so this] assms(4)
    show "current_time b - current_time a \<le> 1.5" by (simp add: dwell_time_def fr)
  qed
  with quiet_fresh [OF assms(1,2), of a rest loc] assms(3) show ?thesis
    by (simp add: dwell_def fr)
qed


lemma process_frame_detection:
  assumes "as_constructed sv" and "process_frame sv loc a = (tr, sv1, Inr l)"
    and "of_type HANDS_DOWN (emitted tr) \<noteq> []"
  shows "as_constructed sv1 \<and> hands_down_start (hands_down_detector sv1) = None"
proof -
  from assms(2) obtain ev1 sv' sv2 hc ev2 sv3 ev3 where
    s1: "hands_down_stage sv a = (ev1, sv')" and s2: "hand_validation sv' loc a = (sv2, Some l, hc)"
    and s3: "gloss_validation sv2 l = (ev2, sv3)"
    and s4: "tone_detection sv3 a = (ev3, sv1, face_classified tr)"
    and em: "emitted tr = ev1 @ ev2 @ ev3"
    by (auto elim: process_frame_Inr)
  have "of_type HANDS_DOWN (emitted tr) = of_type HANDS_DOWN ev1"
    using gloss_validation_fields(4) [OF s3] tone_detection_fields(4) [OF s4]
    by (simp add: em of_type_append)
  with assms(3) have ne: "ev1 \<noteq> []" by (auto simp: of_type_def)
  have det: "hands_down_detector sv1 = hands_down_detector sv'"
    using hand_validation_fields(2) [OF s2] gloss_validation_fields(1) [OF s3]
      tone_detection_fields(1) [OF s4] by simp
  from s1 ne have "hands_down_detector sv' = (hands_down_detector sv)\<lparr>hands_down_start := None\<rparr>"
    by (auto simp: hands_down_stage_def check_def reset_def
        split: prod.splits bool.splits if_splits option.splits)
  with det assms(1) show ?thesis by (simp add: as_constructed_def)
qed

text \<open>
  The dwell on a stream that has the servicer to itself.
  With the thresholds of \<^verbatim>\<open>__init__\<close> (0.9 and 1.5 s): a stream of frames of one or two hands
  whose effective wrist y exceeds 0.9 throughout and whose first and last frame are exactly 1.6 s apart yields exactly
  one HANDS\_DOWN event; one whose first and last frame are 1.0 s apart yields none. After an
  iteration that emitted HANDS\_DOWN, and so reset the detector, the timer is cleared, and
  continuing the loop with a further 1.6 s dwell yields exactly one more HANDS\_DOWN event.
\<close>

theorem hands_down_dwell:
  assumes "as_constructed sv"
  shows "(dwell frames \<and> dwell_time frames = 1.6 \<longrightarrow>
            hands_down_count (fst (StreamLandmarks sv frames)) = 1)
       \<and> (dwell frames \<and> dwell_time frames = 1.0 \<longrightarrow>
            hands_down_count (fst (StreamLandmarks sv frames)) = 0)
       \<and> (process_frame sv loc a = (tr, sv1, Inr l) \<and> of_type HANDS_DOWN (emitted tr) \<noteq> []
            \<and> dwell frames \<and> dwell_time frames = 1.6 \<longrightarrow>
            hands_down_start (hands_down_detector sv1) = None
            \<and> hands_down_count (fst (frame_loop sv1 (Some l) frames)) = 1)"
proof -
  let ?sv = "sv\<lparr>hands_down_detector := reset (hands_down_detector sv)\<rparr>"
  have c: "as_constructed ?sv" and s: "hands_down_start (hands_down_detector ?sv) = None"
    using assms by (simp_all add: as_constructed_def reset_def)
  have one: "dwell frames \<and> dwell_time frames = 1.6 \<longrightarrow>
            hands_down_count (fst (StreamLandmarks sv frames)) = 1"
    using once_fresh [OF c s, of frames None] by (simp add: StreamLandmarks_def)
  have none: "dwell frames \<and> dwell_time frames = 1.0 \<longrightarrow>
            hands_down_count (fst (StreamLandmarks sv frames)) = 0"
    using none_fresh [OF c s, of frames None] by (simp add: StreamLandmarks_def)
  have again: "hands_down_start (hands_down_detector sv1) = None
            \<and> hands_down_count (fst (frame_loop sv1 (Some l) frames)) = 1"
    if h: "process_frame sv loc a = (tr, sv1, Inr l) \<and> of_type HANDS_DOWN (emitted tr) \<noteq> []
            \<and> dwell frames \<and> dwell_time frames = 1.6"
  proof -
    from process_frame_detection [OF assms, of loc a tr sv1 l] h
    have c1: "as_constructed sv1" and s1: "hands_down_start (hands_down_detector sv1) = None"
      by simp_all
    from once_fresh [OF c1 s1, of frames "Some l"] h s1 show ?thesis by simp
  qed
  from one none again show ?thesis by blast
qed

lemma hand_D_facts: "length hand_D = 63" "wrist_y_of hand_D = 19/20"
  by (simp_all add: hand_D_def wrist_y_of_def)

lemma lowered_down: "down (lowered t)"
  by (simp add: down_def lowered_def hand_D_facts effective_wrist_y_def) (simp add: hand_D_def)

lemma second_lowered_down: "down (second_lowered t)"
  by (simp add: down_def second_lowered_def hand_D_facts effective_wrist_y_def)
     (simp add: hand_D_def nth_append)

lemma hand_D_rejected: "\<not> passes_validation hand_D"
proof -
  have "sub_block hand_D 0 = hand_D" by (simp add: sub_block_def hand_D_facts)
  moreover have "non_zero_count hand_D = 2" by (simp add: non_zero_count_def hand_D_def)
  ultimately show ?thesis by (simp add: passes_validation_iff hand_D_facts)
qed

lemma detection_on_lowered:
  "process_frame (timing_since 0) None (lowered 1.6)
     = (\<lparr>emitted = [\<lparr>ev_type = HANDS_DOWN, label = ''hands_down'', confidence = 1\<rparr>],
         hands_classified = False, face_classified = False\<rparr>, init_servicer, Inr no_gloss)"
proof -
  have c: "as_constructed (timing_since 0)" by (simp add: as_constructed_def timing_since_def)
  have hd: "hands_down_stage (timing_since 0) (lowered 1.6)
     = ([\<lparr>ev_type = HANDS_DOWN, label = ''hands_down'', confidence = 1\<rparr>], init_servicer)"
    by (simp add: hands_down_stage_down [OF c lowered_down])
       (simp add: timing_since_def lowered_def init_servicer_def)
  have hs: "hands (frame (lowered t)) = hand_D" for t by (simp add: lowered_def)
  have hv: "hand_validation init_servicer None (lowered 1.6) = (init_servicer, Some no_gloss, False)"
    using hv_rejected [of "lowered 1.6" init_servicer None] hand_D_rejected
    by (simp add: hs hand_D_facts init_servicer_def)
  show ?thesis
    unfolding process_frame_def hd hv prod.case option.case gloss_validation_no_gloss
    by (simp add: tone_detection_def init_servicer_def)
qed

theorem hands_down_dwell_witness:
  "as_constructed (timing_since 0)
   \<and> dwell [lowered 0, second_lowered 0.8, lowered 1.6] \<and> dwell_time [lowered 0, second_lowered 0.8, lowered 1.6] = 1.6
   \<and> hands_down_count (fst (StreamLandmarks (timing_since 0) [lowered 0, second_lowered 0.8, lowered 1.6])) = 1
   \<and> dwell [lowered 0, lowered 0.5, lowered 1] \<and> dwell_time [lowered 0, lowered 0.5, lowered 1] = 1.0
   \<and> hands_down_count (fst (StreamLandmarks (timing_since 0) [lowered 0, lowered 0.5, lowered 1])) = 0
   \<and> process_frame (timing_since 0) None (lowered 1.6)
     = (\<lparr>emitted = [\<lparr>ev_type = HANDS_DOWN, label = ''hands_down'', confidence = 1\<rparr>],
         hands_classified = False, face_classified = False\<rparr>, init_servicer, Inr no_gloss)
   \<and> hands_down_count (fst (frame_loop init_servicer (Some no_gloss)
         [lowered 0, second_lowered 0.8, lowered 1.6])) = 1"
proof -
  have c: "as_constructed (timing_since 0)" by (simp add: as_constructed_def timing_since_def)
  have d1: "dwell [lowered 0, second_lowered 0.8, lowered 1.6]"
    and t1: "dwell_time [lowered 0, second_lowered 0.8, lowered 1.6] = 1.6"
    and d2: "dwell [lowered 0, lowered 0.5, lowered 1]"
    and t2: "dwell_time [lowered 0, lowered 0.5, lowered 1] = 1.0"
    by (simp_all add: dwell_def dwell_time_def lowered_down second_lowered_down)
       (simp_all add: lowered_def second_lowered_def)
  have ev: "of_type HANDS_DOWN [\<lparr>ev_type = HANDS_DOWN, label = ''hands_down'', confidence = 1\<rparr>] \<noteq> []"
    by (simp add: of_type_def)
  show ?thesis
    using hands_down_dwell [OF c, of "[lowered 0, second_lowered 0.8, lowered 1.6]" None "lowered 1.6"
        "\<lparr>emitted = [\<lparr>ev_type = HANDS_DOWN, label = ''hands_down'', confidence = 1\<rparr>],
         hands_classified = False, face_classified = False\<rparr>" init_servicer no_gloss]
      hands_down_dwell [OF c, of "[lowered 0, lowered 0.5, lowered 1]" None "lowered 1.6"
        "\<lparr>emitted = [\<lparr>ev_type = HANDS_DOWN, label = ''hands_down'', confidence = 1\<rparr>],
         hands_classified = False, face_classified = False\<rparr>" init_servicer no_gloss]
      c d1 t1 d2 t2 detection_on_lowered ev
    by simp
qed

subsection \<open>Runs that show the handler's defects\<close>

lemma moved_first: "hands_moved_of hl None"
  by (simp add: hands_moved_of_def)

lemma hand_A_static: "\<not> hands_moved_of hand_A (Some hand_A)"
  using hands_moved_of_mean [of hand_A hand_A]
  by (simp add: mean_displacement_same hand_A_length)

lemma hd_no_hands:
  "hands_down_stage sv no_hands =
     ([], sv\<lparr>hands_down_detector := (hands_down_detector sv)\<lparr>hands_down_start := None\<rparr>\<rparr>)"
  by (simp add: hands_down_stage_def no_hands_def check_empty)

lemma hv_no_hands: "hand_validation sv loc no_hands = (sv, loc, False)"
  by (simp add: hv_none no_hands_def)

lemma no_hands_face: "face_answer no_hands = (None, 0)"
  by (simp add: no_hands_def)

lemmas stream_simps = arrival_simps no_hands_face process_frame_def hd_sign hd_blank hd_no_hands
  hv_sign hv_blank hv_no_hands moved_first hand_A_static
  gloss_validation_def tone_detection_def reset_def
  buffer_append_def CONFIDENCE_THRESHOLD_def min_consistent_frames_def Let_def

text \<open>
  C4 fails on the code. The branch for a frame without hands (lines 123--128) assigns nothing to
  \<^verbatim>\<open>gloss_label, gloss_confidence\<close>, so line 236 reads the values left by an earlier
  frame. After one classified frame, two frames with an empty hands sequence each append the
  stale HELLO to the buffer, and the second of them emits a GLOSS event, although the
  classifier is called on neither.
\<close>

theorem stale_gloss_on_frames_without_hands:
  "hands (frame no_hands) = []
   \<and> map emitted (fst (StreamLandmarks init_servicer [sign 0, no_hands, no_hands]))
       = [[], [], [\<lparr>ev_type = GLOSS, label = ''HELLO'', confidence = 0.95\<rparr>]]
   \<and> map hands_classified (fst (StreamLandmarks init_servicer [sign 0, no_hands, no_hands]))
       = [True, False, False]
   \<and> recent_gloss_detections (fst (snd (StreamLandmarks init_servicer [sign 0, no_hands])))
       = [(''HELLO'', 0.95), (''HELLO'', 0.95)]"
  by (simp add: StreamLandmarks_def init_servicer_def stream_simps) (simp add: no_hands_def)

text \<open>
  C1 fails on the code. Only the hands-down detector is reset when a stream starts (line 87);
  the gloss buffer, the previous landmarks, the last tone label and the flag stay on the one
  servicer object. A first connection leaves two HELLO entries in the buffer, and the first
  frame of the next connection emits a GLOSS and a TONE event that the same frame does not
  produce on a fresh servicer. Likewise the snapshot left by one connection suppresses the
  classification of the next connection's first frame.
\<close>

theorem state_survives_the_connection:
  "recent_gloss_detections
      (fst (snd (StreamLandmarks init_servicer [sign 0, blank 1, sign 2, blank 3])))
     = [(''HELLO'', 0.95), (''HELLO'', 0.95)]
   \<and> events_of (StreamLandmarks
        (fst (snd (StreamLandmarks init_servicer [sign 0, blank 1, sign 2, blank 3]))) [sign 0])
     = [\<lparr>ev_type = GLOSS, label = ''HELLO'', confidence = 0.95\<rparr>,
        \<lparr>ev_type = TONE, label = ''/question'', confidence = 0.9\<rparr>]
   \<and> events_of (StreamLandmarks init_servicer [sign 0]) = []
   \<and> previous_hand_landmarks (fst (snd (StreamLandmarks init_servicer [sign 0]))) = Some hand_A
   \<and> map hands_classified
        (fst (StreamLandmarks (fst (snd (StreamLandmarks init_servicer [sign 0]))) [sign 0]))
     = [False]
   \<and> map hands_classified (fst (StreamLandmarks init_servicer [sign 0])) = [True]"
  by (simp add: StreamLandmarks_def init_servicer_def stream_simps events_of_def)

subsection \<open>Two connections on the one servicer\<close>

text \<open>
  A connection that is alone on the server sends what \<^verbatim>\<open>StreamLandmarks\<close> yields on its
  frames and leaves the servicer as the handler leaves it.
\<close>

lemma arrivals_after_end:
  "streams s c = Some (Ended st) \<Longrightarrow> foldl serve_step s (map (Arrive c) frames) = s"
  by (induction frames) simp_all

lemma lone_arrivals:
  "streams s c = Some (Running loc) \<Longrightarrow>
   frame_loop (shared s) loc frames = (trs, sv', st) \<Longrightarrow>
   sent (foldl serve_step s (map (Arrive c) frames)) c = sent s c @ trs
   \<and> shared (foldl serve_step s (map (Arrive c) frames)) = sv'"
proof (induction frames arbitrary: s loc trs sv' st)
  case Nil
  then show ?case by simp
next
  case (Cons a rest)
  obtain tr sv1 r where pf: "process_frame (shared s) loc a = (tr, sv1, r)"
    by (cases "process_frame (shared s) loc a") auto
  show ?case
  proof (cases r)
    case (Inl e)
    let ?s1 = "serve_step s (Arrive c a)"
    have e: "streams ?s1 c = Some (Ended INTERNAL)" and o: "sent ?s1 c = sent s c @ [tr]"
      and sh: "shared ?s1 = sv1"
      using Cons.prems(1) pf Inl by simp_all
    from Cons.prems(2) pf Inl have "trs = [tr]" "sv' = sv1" by simp_all
    with arrivals_after_end [OF e, of rest] o sh show ?thesis by simp
  next
    case (Inr l)
    let ?s1 = "serve_step s (Arrive c a)"
    have e: "streams ?s1 c = Some (Running (Some l))" and o: "sent ?s1 c = sent s c @ [tr]"
      and sh: "shared ?s1 = sv1"
      using Cons.prems(1) pf Inr by simp_all
    obtain trs' sv2 st' where fl: "frame_loop sv1 (Some l) rest = (trs', sv2, st')"
      by (cases "frame_loop sv1 (Some l) rest") auto
    with Cons.prems(2) pf Inr have t: "trs = tr # trs'" "sv' = sv2" by simp_all
    from Cons.IH [OF e, of trs' sv2 st'] fl sh o t show ?thesis by simp
  qed
qed

lemma lone_connection:
  "sent (serve_run s (Open c # map (Arrive c) frames)) c
     = sent s c @ fst (StreamLandmarks (shared s) frames)
   \<and> shared (serve_run s (Open c # map (Arrive c) frames))
     = fst (snd (StreamLandmarks (shared s) frames))"
proof -
  let ?s1 = "serve_step s (Open c)"
  obtain trs sv' st where fl: "frame_loop (shared ?s1) None frames = (trs, sv', st)"
    by (cases "frame_loop (shared ?s1) None frames") auto
  have r: "streams ?s1 c = Some (Running None)" by simp
  from lone_arrivals [OF r fl] fl show ?thesis
    by (simp add: serve_run_def StreamLandmarks_def)
qed


lemma hv_calm:
  "hand_validation sv loc (calm t) =
    (sv\<lparr>previous_hand_landmarks := Some hand_A\<rparr>,
     Some (if hands_moved_of hand_A (previous_hand_landmarks sv)
           then \<lparr>gloss_label = Some ''HELLO'', gloss_confidence = 0.95\<rparr>
           else \<lparr>gloss_label = None, gloss_confidence = 0\<rparr>),
     hands_moved_of hand_A (previous_hand_landmarks sv))"
  using hv_valid [of "calm t" sv loc] hand_A_dense hand_A_wide
  by (simp add: calm_def hand_A_length)

lemma hd_calm:
  "threshold_y (hands_down_detector sv) = 0.9 \<Longrightarrow>
   hands_down_stage sv (calm t) =
     ([], sv\<lparr>hands_down_detector := (hands_down_detector sv)\<lparr>hands_down_start := None\<rparr>\<rparr>)"
  using hand_A_length by (auto simp: hands_down_stage_def check_def calm_def hand_A_wrist)

lemma calm_face: "face_answer (calm t) = (Some ''/neutral'', 0.9)"
  by (simp add: calm_def)

lemma mean_A_B: "mean_displacement hand_A hand_B = 1/21"
  by (simp add: mean_displacement_def hand_A_length hand_B_length upt_21)
     (simp add: hand_A_def hand_B_def landmark_def linalg_norm_diff_same linalg_norm_diff_def)

lemma hand_A_moved: "hands_moved_of hand_A (Some hand_B)"
  using hands_moved_of_mean [of hand_A hand_B]
  by (simp add: mean_A_B hand_A_length hand_B_length)

lemma sign_B_face: "face_answer (sign_B t) = (Some ''/question'', 0.9)"
  by (simp add: sign_B_def)

lemmas server_simps = serve_run_def serve_def init_servicer_def hello_def
  arrival_simps calm_face sign_B_face process_frame_def hd_sign hd_blank hd_calm hd_sign_B
  hv_sign hv_blank hv_calm hv_sign_B moved_first hand_A_static hand_A_moved
  gloss_validation_def tone_detection_def reset_def
  buffer_append_def CONFIDENCE_THRESHOLD_def min_consistent_frames_def Let_def

text \<open>
  C5 fails on the code. The snapshot \<^verbatim>\<open>_previous_hand_landmarks\<close> is on the one servicer
  object. Connection 0 sends the same valid hand on two consecutive frames; between them an
  iteration of connection 1 stores another hand as the snapshot, so the second frame of
  connection 0 is compared with connection 1's hand, motion is reported and the classifier is
  called. The same two frames on a servicer of their own give no motion and no call.
\<close>

theorem shared_snapshot_breaks_the_motion_gate:
  "frames_of 0 crossing_motion = [sign 0, sign 2]
   \<and> hands (frame (sign 2)) = hands (frame (sign 0))
   \<and> passes_validation (hands (frame (sign 0)))
   \<and> map hands_classified (sent (serve_run serve crossing_motion) 0) = [True, True]
   \<and> previous_hand_landmarks (shared (serve_run serve (take 4 crossing_motion))) = Some hand_B
   \<and> map hands_classified (fst (StreamLandmarks init_servicer [sign 0, sign 2])) = [True, False]"
proof -
  have a: "frames_of 0 crossing_motion = [sign 0, sign 2]" by (simp add: crossing_motion_def)
  have b: "hands (frame (sign 2)) = hands (frame (sign 0))" by (simp add: sign_def)
  have c: "passes_validation (hands (frame (sign 0)))" using hand_A_passes by (simp add: sign_def)
  have d: "map hands_classified (sent (serve_run serve crossing_motion) 0) = [True, True]"
    by (simp add: crossing_motion_def server_simps)
  have e: "previous_hand_landmarks (shared (serve_run serve (take 4 crossing_motion))) = Some hand_B"
    by (simp add: crossing_motion_def server_simps)
  have f: "map hands_classified (fst (StreamLandmarks init_servicer [sign 0, sign 2])) = [True, False]"
    by (simp add: StreamLandmarks_def init_servicer_def stream_simps)
  from a b c d e f show ?thesis by blast
qed

text \<open>
  C9 fails on the code. The label \<^verbatim>\<open>_last_tone_event\<close> is on the one servicer object.
  Connection 0 emits TONE /question; connection 1 then emits TONE /neutral, which replaces the
  label; the next tone of connection 0 is /question again and is not suppressed, so the
  output of connection 0 carries the same label on two TONE events in a row. The same frames
  on a servicer of their own give one TONE event.
\<close>

theorem shared_tone_label_repeats_a_tone:
  "frames_of 0 crossing_tone
     = [sign 0, blank 1, sign 2, blank 3, sign 4, blank 5, sign 12, blank 13, sign 14, blank 15, sign 16]
   \<and> tone_labels (sent (serve_run serve crossing_tone) 0) = [''/question'', ''/question'']
   \<and> tone_labels (sent (serve_run serve crossing_tone) 1) = [''/neutral'']
   \<and> tone_labels (fst (StreamLandmarks init_servicer (frames_of 0 crossing_tone))) = [''/question'']"
proof -
  have a: "frames_of 0 crossing_tone
     = [sign 0, blank 1, sign 2, blank 3, sign 4, blank 5, sign 12, blank 13, sign 14, blank 15, sign 16]"
    by (simp add: crossing_tone_def)
  have b: "tone_labels (sent (serve_run serve crossing_tone) 0) = [''/question'', ''/question'']"
    by (simp add: crossing_tone_def server_simps tone_labels_def of_type_def)
  have c: "tone_labels (sent (serve_run serve crossing_tone) 1) = [''/neutral'']"
    by (simp add: crossing_tone_def server_simps tone_labels_def of_type_def)
  have d: "tone_labels (fst (StreamLandmarks init_servicer (frames_of 0 crossing_tone))) = [''/question'']"
    unfolding a by (simp add: StreamLandmarks_def init_servicer_def stream_simps tone_labels_def of_type_def)
  from a b c d show ?thesis by blast
qed

lemma hd_lowered:
  assumes "threshold_y (hands_down_detector sv) = 0.9"
    and "duration_threshold (hands_down_detector sv) = 1.5"
  shows "hands_down_stage sv (lowered t) =
    (case hands_down_start (hands_down_detector sv) of
       None \<Rightarrow> ([], sv\<lparr>hands_down_detector :=
                        (hands_down_detector sv)\<lparr>hands_down_start := Some t\<rparr>\<rparr>)
     | Some t0 \<Rightarrow>
         if t - t0 > 1.5
         then ([\<lparr>ev_type = HANDS_DOWN, label = ''hands_down'', confidence = 1\<rparr>],
               sv\<lparr>hands_down_detector := (hands_down_detector sv)\<lparr>hands_down_start := None\<rparr>\<rparr>)
         else ([], sv))"
proof -
  have c: "as_constructed sv" using assms by (simp add: as_constructed_def)
  have t: "current_time (lowered t) = t" by (simp add: lowered_def)
  show ?thesis
    by (simp add: hands_down_stage_down [OF c lowered_down] t split: option.splits)
qed

lemma hv_lowered:
  "hand_validation sv loc (lowered t) = (sv\<lparr>previous_hand_landmarks := None\<rparr>, Some no_gloss, False)"
proof -
  have hs: "hands (frame (lowered t)) = hand_D" by (simp add: lowered_def)
  show ?thesis
    using hv_rejected [of "lowered t" sv loc] hand_D_rejected by (simp add: hs hand_D_facts)
qed

lemma lowered_face: "face_answer (lowered t) = (None, 0)"
  by (simp add: lowered_def)

text \<open>
  C8 fails on the code. The detector is on the one servicer object, and every stream that
  opens resets it (line 87). Connection 0 holds its wrist low for 1.6 s; connection 1 opens
  after the first of these frames, which clears the timer that connection 0 had started, and
  no HANDS\_DOWN event is emitted. The same frames on a servicer of their own give exactly
  one.
\<close>

theorem shared_detector_loses_a_dwell:
  "frames_of 0 crossing_dwell = [lowered 0, lowered 0.8, lowered 1.6]
   \<and> dwell (frames_of 0 crossing_dwell) \<and> dwell_time (frames_of 0 crossing_dwell) = 1.6
   \<and> hands_down_count (sent (serve_run serve crossing_dwell) 0) = 0
   \<and> hands_down_count (fst (StreamLandmarks init_servicer (frames_of 0 crossing_dwell))) = 1"
proof -
  have a: "frames_of 0 crossing_dwell = [lowered 0, lowered 0.8, lowered 1.6]"
    by (simp add: crossing_dwell_def)
  have b: "dwell (frames_of 0 crossing_dwell)" "dwell_time (frames_of 0 crossing_dwell) = 1.6"
    unfolding a by (simp_all add: dwell_def dwell_time_def lowered_down) (simp_all add: lowered_def)
  have c: "hands_down_count (sent (serve_run serve crossing_dwell) 0) = 0"
    by (simp add: crossing_dwell_def serve_run_def serve_def init_servicer_def process_frame_def
        hd_lowered hv_lowered lowered_face gloss_validation_no_gloss tone_detection_def reset_def
        hands_down_count_def of_type_def)
  have d: "hands_down_count (fst (StreamLandmarks init_servicer (frames_of 0 crossing_dwell))) = 1"
    unfolding a
    by (simp add: StreamLandmarks_def init_servicer_def process_frame_def
        hd_lowered hv_lowered lowered_face gloss_validation_no_gloss tone_detection_def reset_def
        hands_down_count_def of_type_def)
  from a b c d show ?thesis by blast
qed

end
